theory Spec2Isabelle
  imports Main "HOL-Library.Sublist" "HOL-Library.AList"
begin

section \<open>Python string primitives used by dwar2pd\<close>

text \<open>
  Python strings are modelled as \<^typ>\<open>string\<close>; a \<^typ>\<open>char\<close> stands for the code point
  of the same number, so the model covers the texts whose code points are below 256.
  The primitives below follow the behaviour of CPython's \<open>str\<close> methods on that range.
\<close>

abbreviation TAB :: char where "TAB \<equiv> CHR 0x09"
abbreviation LF :: char where "LF \<equiv> CHR 0x0A"
abbreviation CR :: char where "CR \<equiv> CHR 0x0D"
abbreviation DQUOTE :: char where "DQUOTE \<equiv> CHR 0x22"

text \<open>\<open>str.isspace\<close> on one character: HT, LF, VT, FF, CR, FS, GS, RS, US, space, NEL, NBSP.\<close>

definition py_isspace :: "char \<Rightarrow> bool" where
  "py_isspace c = ((of_char c :: nat) \<in> set [9, 10, 11, 12, 13, 28, 29, 30, 31, 32, 133, 160])"

text \<open>\<open>s.strip()\<close>: whitespace removed at both ends.\<close>

definition py_strip :: "string \<Rightarrow> string" where
  "py_strip s = rev (dropWhile py_isspace (rev (dropWhile py_isspace s)))"

text \<open>\<open>s.lower()\<close>: A-Z and the Latin-1 capitals (all of 0xC0-0xDE but the sign 0xD7) move up by 32.\<close>

definition py_lower_char :: "char \<Rightarrow> char" where
  "py_lower_char c =
     (let n = (of_char c :: nat)
      in if (65 \<le> n \<and> n \<le> 90) \<or> (192 \<le> n \<and> n \<le> 222 \<and> n \<noteq> 215) then char_of (n + 32) else c)"

definition py_lower :: "string \<Rightarrow> string" where
  "py_lower s = map py_lower_char s"

text \<open>\<open>s.startswith(p)\<close>, \<open>s.endswith(p)\<close> and \<open>p in s\<close>.\<close>

definition startswith :: "string \<Rightarrow> string \<Rightarrow> bool" where
  "startswith s p = prefix p s"

definition endswith :: "string \<Rightarrow> string \<Rightarrow> bool" where
  "endswith s p = suffix p s"

definition py_in :: "string \<Rightarrow> string \<Rightarrow> bool" where
  "py_in p s = sublist p s"

text \<open>
  \<open>s.split(sep)\<close> for a non-empty separator: the pieces between the occurrences of
  \<open>sep\<close>, found left to right without overlap; the result always has at least one piece.
  The accumulator holds the current piece in reverse.
\<close>

function split_from :: "string \<Rightarrow> string \<Rightarrow> string \<Rightarrow> string list" where
  "split_from sep acc [] = [rev acc]"
| "split_from sep acc (c # cs) =
     (if sep \<noteq> [] \<and> prefix sep (c # cs)
      then rev acc # split_from sep [] (drop (length sep) (c # cs))
      else split_from sep (c # acc) cs)"
  by pat_completeness auto
termination
  by (relation "measure (\<lambda>(sep, acc, s). length s)") (auto simp: neq_Nil_conv)

definition py_split :: "string \<Rightarrow> string \<Rightarrow> string list" where
  "py_split s sep = split_from sep [] s"

text \<open>\<open>s.split(':', 1)\<close> on a string that contains a colon: the text before the first colon and the text after it.\<close>

definition split_colon1 :: "string \<Rightarrow> string \<times> string" where
  "split_colon1 s = (takeWhile (\<lambda>c. c \<noteq> CHR '':'') s, drop 1 (dropWhile (\<lambda>c. c \<noteq> CHR '':'') s))"

text \<open>
  \<open>s.splitlines()\<close>: lines end at LF, CR, CR LF, VT, FF, FS, GS, RS and NEL; the line
  ends are dropped and no empty line is added after a final line end.
\<close>

definition is_linebreak :: "char \<Rightarrow> bool" where
  "is_linebreak c = ((of_char c :: nat) \<in> set [10, 11, 12, 13, 28, 29, 30, 133])"

fun splitlines_from :: "string \<Rightarrow> string \<Rightarrow> string list" where
  "splitlines_from acc [] = (if acc = [] then [] else [rev acc])"
| "splitlines_from acc [c] = (if is_linebreak c then [rev acc] else [rev (c # acc)])"
| "splitlines_from acc (c # d # ds) =
     (if c = CR \<and> d = LF then rev acc # splitlines_from [] ds
      else if is_linebreak c then rev acc # splitlines_from [] (d # ds)
      else splitlines_from (c # acc) (d # ds))"

definition splitlines :: "string \<Rightarrow> string list" where
  "splitlines s = splitlines_from [] s"

text \<open>
  \<open>int(s)\<close> on a string. The whitespace that \<open>int\<close> skips at both ends is HT, LF, VT,
  FF, CR, space, NEL and NBSP; unlike \<open>strip\<close> it does not skip the separators FS, GS,
  RS and US. One sign may lead, and the digits may be grouped by single underscores. A text
  with more than 4300 digits is refused (the default of \<open>sys.int_max_str_digits\<close>).
  Anything else raises \<open>ValueError\<close>, here \<open>None\<close>.
\<close>

definition int_isspace :: "char \<Rightarrow> bool" where
  "int_isspace c = ((of_char c :: nat) \<in> set [9, 10, 11, 12, 13, 32, 133, 160])"

definition int_strip :: "string \<Rightarrow> string" where
  "int_strip s = rev (dropWhile int_isspace (rev (dropWhile int_isspace s)))"

definition is_digit :: "char \<Rightarrow> bool" where
  "is_digit c = (48 \<le> (of_char c :: nat) \<and> (of_char c :: nat) \<le> 57)"

fun digits_ok :: "string \<Rightarrow> bool" where
  "digits_ok [] = False"
| "digits_ok [c] = is_digit c"
| "digits_ok (c # d # ds) = (is_digit c \<and> (if d = CHR ''_'' then digits_ok ds else digits_ok (d # ds)))"

definition digits_value :: "string \<Rightarrow> nat" where
  "digits_value s = foldl (\<lambda>v c. 10 * v + (of_char c - 48)) 0 (filter is_digit s)"

definition py_int :: "string \<Rightarrow> int option" where
  "py_int s =
     (let t = int_strip s;
          neg = startswith t ''-'';
          body = (if startswith t ''-'' \<or> startswith t ''+'' then drop 1 t else t)
      in if digits_ok body \<and> length (filter is_digit body) \<le> 4300
         then Some (if neg then - int (digits_value body) else int (digits_value body))
         else None)"

text \<open>\<open>xs[i]\<close> for a Python integer index: a negative index counts from the end, an index out of range raises.\<close>

datatype py_exc = ValueError | IndexError

definition py_getitem :: "'a list \<Rightarrow> int \<Rightarrow> py_exc + 'a" where
  "py_getitem xs i =
     (if 0 \<le> i \<and> i < int (length xs) then Inr (xs ! nat i)
      else if i < 0 \<and> 0 \<le> int (length xs) + i then Inr (xs ! nat (int (length xs) + i))
      else Inl IndexError)"

section \<open>decode.py: the batch decoder\<close>

text \<open>
  The node process behind \<open>subprocess.run\<close> is outside the program. One call either
  completes with exit status 0 and some standard output, or raises \<open>TimeoutExpired\<close>,
  \<open>CalledProcessError\<close> (non-zero exit, as \<open>check=True\<close>) or another exception.
  A decoder is any function from the number of earlier calls and the submitted batch to
  such an outcome; the list of batches submitted so far is threaded through the model, so
  that a call to the decoder is visible as one more entry of that list.
\<close>

datatype proc_result = Completed string | TimeoutExpired | CalledProcessError | OtherException

type_synonym decoder = "nat \<Rightarrow> string list \<Rightarrow> proc_result"

type_synonym calls = "string list list"

text \<open>A cell is a Python string or \<open>None\<close>. The test \<open>ic and ic.strip()\<close> of line 18.\<close>

definition nonblank :: "string option \<Rightarrow> bool" where
  "nonblank ic = (case ic of None \<Rightarrow> False | Some s \<Rightarrow> s \<noteq> [] \<and> py_strip s \<noteq> [])"

definition valid_idcodes :: "string option list \<Rightarrow> string list" where
  "valid_idcodes idcodes = List.map_filter (\<lambda>ic. if nonblank ic then ic else None) idcodes"

text \<open>
  One line of the decoder's output (lines 36-41): a line without a colon and a line whose
  result starts with \<open>ERROR:\<close> are skipped (\<open>Inr None\<close>); otherwise the index is parsed
  and looked up in the batch, giving the decoded identifier and its result.
\<close>

definition resolve_line :: "string list \<Rightarrow> string \<Rightarrow> py_exc + (string \<times> string) option" where
  "resolve_line valid line =
     (if CHR '':'' \<in> set line then
        (let (index_str, smiles) = split_colon1 line
         in if \<not> startswith smiles ''ERROR:'' then
              (case py_int index_str of
                 None \<Rightarrow> Inl ValueError
               | Some batch_index \<Rightarrow>
                   (case py_getitem valid batch_index of
                      Inl e \<Rightarrow> Inl e
                    | Inr decoded_idcode \<Rightarrow> Inr (Some (decoded_idcode, smiles))))
            else Inr None)
      else Inr None)"

text \<open>The inner loop of lines 42-44: every position holding the decoded identifier receives the result.\<close>

definition assign_all :: "string option list \<Rightarrow> string \<Rightarrow> string \<Rightarrow> string option list \<Rightarrow> string option list" where
  "assign_all idcodes decoded_idcode smiles results =
     map (\<lambda>(orig_idcode, r). if orig_idcode = Some decoded_idcode then Some smiles else r) (zip idcodes results)"

text \<open>The loop over the output lines (lines 35-44); an exception leaves the loop.\<close>

fun parse_results :: "string list \<Rightarrow> string option list \<Rightarrow> string list \<Rightarrow> string option list \<Rightarrow> py_exc + string option list" where
  "parse_results valid idcodes [] results = Inr results"
| "parse_results valid idcodes (line # lines) results =
     (case resolve_line valid line of
        Inl e \<Rightarrow> Inl e
      | Inr None \<Rightarrow> parse_results valid idcodes lines results
      | Inr (Some (decoded_idcode, smiles)) \<Rightarrow>
          parse_results valid idcodes lines (assign_all idcodes decoded_idcode smiles results))"

text \<open>
  \<open>decode_idcodes\<close> (lines 12-53). Both handlers return the all-\<open>None\<close> list; they differ
  only in the message written to the error stream, which is not modelled.
\<close>

definition decode_idcodes :: "decoder \<Rightarrow> calls \<Rightarrow> string option list \<Rightarrow> string option list \<times> calls" where
  "decode_idcodes run log idcodes =
     (if idcodes = [] then ([], log)
      else
        let valid = valid_idcodes idcodes
        in if valid = [] then (replicate (length idcodes) None, log)
           else
             (case run (length log) valid of
                Completed out \<Rightarrow>
                  (case parse_results valid idcodes (splitlines out) (replicate (length idcodes) None) of
                     Inr results \<Rightarrow> (results, log @ [valid])
                   | Inl e \<Rightarrow> (replicate (length idcodes) None, log @ [valid]))
              | TimeoutExpired \<Rightarrow> (replicate (length idcodes) None, log @ [valid])
              | CalledProcessError \<Rightarrow> (replicate (length idcodes) None, log @ [valid])
              | OtherException \<Rightarrow> (replicate (length idcodes) None, log @ [valid])))"

section \<open>parser.py: reading the document\<close>

text \<open>\<open>is_dwar_file\<close> (lines 19-21).\<close>

definition is_dwar_file :: "string \<Rightarrow> bool" where
  "is_dwar_file content = (py_in ''<datawarrior-fileinfo>'' content \<or> py_in ''<column properties>'' content)"

subsection \<open>Column metadata\<close>

text \<open>
  A Python dict is an association list in insertion order: \<^const>\<open>AList.update\<close> replaces
  the value of a key that is present where it stands and appends a new key, as a dict does.
\<close>

type_synonym col_props = "(string \<times> string) list"

type_synonym column_info = "(string \<times> col_props) list"

text \<open>
  \<open>re.search\<close> with the pattern \<open>tag"([^"]+)">\<close> (lines 47 and 54): the leftmost place
  where the tag, a double quote, one or more characters other than the double quote, a
  double quote and \<open>>\<close> follow each other; the result is the quoted text. The run of
  characters other than the quote is maximal, since the next character must be the quote.
\<close>

definition match_quoted_at :: "string \<Rightarrow> string \<Rightarrow> string option" where
  "match_quoted_at tag s =
     (if prefix (tag @ [DQUOTE]) s then
        (let r = drop (length tag + 1) s;
             g = takeWhile (\<lambda>c. c \<noteq> DQUOTE) r
         in if g \<noteq> [] \<and> prefix [DQUOTE, CHR ''>''] (dropWhile (\<lambda>c. c \<noteq> DQUOTE) r) then Some g else None)
      else None)"

fun re_search_quoted :: "string \<Rightarrow> string \<Rightarrow> string option" where
  "re_search_quoted tag [] = None"
| "re_search_quoted tag (c # cs) =
     (case match_quoted_at tag (c # cs) of
        Some g \<Rightarrow> Some g
      | None \<Rightarrow> re_search_quoted tag cs)"

record ecp_state =
  in_column_properties :: bool
  current_column :: "string option"
  ecp_info :: column_info

text \<open>\<open>column_info[current_column][key] = v\<close> (lines 60 and 64).\<close>

definition set_prop :: "string \<Rightarrow> string \<Rightarrow> string \<Rightarrow> column_info \<Rightarrow> column_info" where
  "set_prop col key v info = AList.map_entry col (AList.update key v) info"

text \<open>
  The body of the loop of \<open>extract_column_properties\<close> (lines 31-64). In
  \<open>prop.split(key)[1]\<close> the index is in range, as \<open>key in prop\<close> was tested before.
\<close>

definition ecp_step :: "string \<Rightarrow> ecp_state \<Rightarrow> ecp_state" where
  "ecp_step raw st =
     (let line = py_strip raw
      in if line = ''<column properties>'' then st\<lparr>in_column_properties := True\<rparr>
         else if line = ''</column properties>'' then st\<lparr>in_column_properties := False\<rparr>
         else if \<not> in_column_properties st then st
         else if startswith line ''<columnName='' then
           (case re_search_quoted ''<columnName='' line of
              Some name \<Rightarrow>
                st\<lparr>current_column := Some name,
                   ecp_info := AList.update name [(''type'', ''string'')] (ecp_info st)\<rparr>
            | None \<Rightarrow> st)
         else if startswith line ''<columnProperty='' \<and> current_column st \<noteq> None \<and> current_column st \<noteq> Some [] then
           (case re_search_quoted ''<columnProperty='' line of
              Some prop \<Rightarrow>
                if py_in ''specialType'' prop then
                  st\<lparr>ecp_info := set_prop (the (current_column st)) ''specialType''
                                  (py_strip (py_split prop ''specialType'' ! 1)) (ecp_info st)\<rparr>
                else if py_in ''parent'' prop then
                  st\<lparr>ecp_info := set_prop (the (current_column st)) ''parent''
                                  (py_strip (py_split prop ''parent'' ! 1)) (ecp_info st)\<rparr>
                else st
            | None \<Rightarrow> st)
         else st)"

definition extract_column_properties :: "string \<Rightarrow> column_info" where
  "extract_column_properties content =
     ecp_info (fold ecp_step (py_split content [LF])
       \<lparr>in_column_properties = False, current_column = None, ecp_info = []\<rparr>)"

subsection \<open>Header and data lines\<close>

record fh_state =
  found_column_properties_end :: bool
  header_found :: bool
  header_line :: "string list option"
  data_lines :: "string list list"

text \<open>The test for a data line (lines 98-102).\<close>

definition collect_data :: "string \<Rightarrow> fh_state \<Rightarrow> fh_state" where
  "collect_data line st =
     (if line \<noteq> [] \<and> TAB \<in> set line \<and> \<not> startswith line ''<'' \<and>
         \<not> startswith line ''>'' \<and> \<not> startswith line ''settings=''
      then (if header_found st then st\<lparr>data_lines := data_lines st @ [py_split line [TAB]]\<rparr> else st)
      else st)"

text \<open>
  The body of the loop of \<open>find_header_and_data_lines\<close> (lines 81-102), on the stripped
  line; \<open>fh_step\<close> is the whole body, with the strip of line 79.
\<close>

definition scan_line :: "string \<Rightarrow> fh_state \<Rightarrow> fh_state" where
  "scan_line line st =
     (if py_in ''<column properties>'' line then st
      else if py_in ''</column properties>'' line then st\<lparr>found_column_properties_end := True\<rparr>
      else if found_column_properties_end st \<and> line \<noteq> [] \<and> TAB \<in> set line \<and>
              \<not> startswith line ''<'' \<and> \<not> startswith line ''>'' \<and> \<not> header_found st
      then (let parts = py_split line [TAB]
            in if 3 \<le> length parts then st\<lparr>header_line := Some parts, header_found := True\<rparr>
               else collect_data line st)
      else collect_data line st)"

definition fh_step :: "string \<Rightarrow> fh_state \<Rightarrow> fh_state" where
  "fh_step raw st = scan_line (py_strip raw) st"

definition fh_init :: fh_state where
  "fh_init = \<lparr>found_column_properties_end = False, header_found = False, header_line = None, data_lines = []\<rparr>"

definition find_header_and_data_lines :: "string \<Rightarrow> string list option \<times> string list list" where
  "find_header_and_data_lines content =
     (let st = fold fh_step (py_split content [LF]) fh_init
      in (header_line st, data_lines st))"

section \<open>parser.py: the table\<close>

text \<open>
  The part of a pandas DataFrame that the program uses: the column labels in order and the
  rows, each row holding one cell per column. A cell is a string or \<open>None\<close>, the missing
  value that \<open>pd.DataFrame\<close> fills in where a row is shorter than the widest one.
  Labels may repeat. The pandas operations the program calls are modelled by what pandas does:
  \<^item> \<open>df[col].tolist()\<close> is the column's cells when the label occurs once; for a repeated
    label \<open>df[col]\<close> is a DataFrame, which has no \<open>tolist\<close> (\<open>AttributeError\<close>);
  \<^item> \<open>df[name] = values\<close> needs as many values as rows (\<open>ValueError\<close> otherwise), writes
    every column labelled \<open>name\<close>, and appends a new last column when there is none;
  \<^item> \<open>df.drop(columns=names)\<close> removes every column whose label is in \<open>names\<close> and
    raises \<open>KeyError\<close> for a name that is no label;
  \<^item> \<open>df.dropna(how='all')\<close> removes the rows whose cells are all missing.
\<close>

type_synonym cell = "string option"

record dataframe =
  columns :: "string list"
  rows :: "cell list list"

datatype load_error = FormatError | AttributeError | KeyError | LengthError

definition empty_frame :: dataframe where
  "empty_frame = \<lparr>columns = [], rows = []\<rparr>"

definition get_column :: "dataframe \<Rightarrow> string \<Rightarrow> load_error + cell list" where
  "get_column df col =
     (case filter (\<lambda>i. columns df ! i = col) [0..<length (columns df)] of
        [] \<Rightarrow> Inl KeyError
      | [i] \<Rightarrow> Inr (map (\<lambda>r. r ! i) (rows df))
      | _ \<Rightarrow> Inl AttributeError)"

definition set_column :: "dataframe \<Rightarrow> string \<Rightarrow> cell list \<Rightarrow> load_error + dataframe" where
  "set_column df name vals =
     (if length vals \<noteq> length (rows df) then Inl LengthError
      else if name \<in> set (columns df) then
        Inr (df\<lparr>rows := map (\<lambda>(r, v). map (\<lambda>(c, x). if c = name then v else x) (zip (columns df) r))
                              (zip (rows df) vals)\<rparr>)
      else Inr \<lparr>columns = columns df @ [name], rows = map (\<lambda>(r, v). r @ [v]) (zip (rows df) vals)\<rparr>)"

definition drop_columns :: "dataframe \<Rightarrow> string list \<Rightarrow> load_error + dataframe" where
  "drop_columns df names =
     (if \<not> list_all (\<lambda>n. n \<in> set (columns df)) names then Inl KeyError
      else Inr \<lparr>columns = filter (\<lambda>c. c \<notin> set names) (columns df),
                rows = map (\<lambda>r. map snd (filter (\<lambda>(c, x). c \<notin> set names) (zip (columns df) r))) (rows df)\<rparr>)"

definition dropna_all :: "dataframe \<Rightarrow> dataframe" where
  "dropna_all df = df\<lparr>rows := filter (\<lambda>r. \<not> list_all (\<lambda>x. x = None) r) (rows df)\<rparr>"

text \<open>\<open>str(n)\<close> for a natural number, as the f-string of line 205 prints it.\<close>

function str_nat :: "nat \<Rightarrow> string" where
  "str_nat n = (if n < 10 then [char_of (48 + n)] else str_nat (n div 10) @ [char_of (48 + n mod 10)])"
  by pat_completeness auto
termination
  by (relation "measure (\<lambda>n. n)") auto

text \<open>
  Lines 198-208: \<open>pd.DataFrame(data_lines)\<close> has as many columns as the longest row and
  pads the shorter rows; the header names the columns when it has that many fields, else
  the names are \<open>Column_0\<close>, \<open>Column_1\<close>, ...; then the rows without any value are dropped.
\<close>

definition frame_width :: "string list list \<Rightarrow> nat" where
  "frame_width data = foldr max (map length data) 0"

definition pad_row :: "nat \<Rightarrow> string list \<Rightarrow> cell list" where
  "pad_row w r = map Some r @ replicate (w - length r) None"

definition generic_names :: "nat \<Rightarrow> string list" where
  "generic_names w = map (\<lambda>i. ''Column_'' @ str_nat i) [0..<w]"

definition assemble_table :: "string list option \<Rightarrow> string list list \<Rightarrow> dataframe" where
  "assemble_table hdr data =
     (let w = frame_width data;
          names = (case hdr of
                     Some h \<Rightarrow> if h \<noteq> [] \<and> length h = w then h else generic_names w
                   | None \<Rightarrow> generic_names w)
      in dropna_all \<lparr>columns = names, rows = map (pad_row w) data\<rparr>)"

text \<open>\<open>find_idcode_columns_for_decoding\<close> (lines 107-129); the dict is read in insertion order.\<close>

definition has_idcode_type :: "col_props \<Rightarrow> bool" where
  "has_idcode_type col_props =
     (py_lower (case map_of col_props ''specialType'' of None \<Rightarrow> [] | Some special_type \<Rightarrow> special_type) = ''idcode'')"

definition is_idcode_entry :: "dataframe \<Rightarrow> string \<times> col_props \<Rightarrow> bool" where
  "is_idcode_entry df entry = (fst entry \<in> set (columns df) \<and> has_idcode_type (snd entry))"

definition find_idcode_columns_for_decoding :: "dataframe \<Rightarrow> column_info \<Rightarrow> string list \<times> string list" where
  "find_idcode_columns_for_decoding df info =
     (let cols = map fst (filter (is_idcode_entry df) info) in (cols, cols))"

text \<open>The loop of \<open>decode_structures_in_dataframe\<close> (lines 146-159); the log messages are not modelled.\<close>

fun decode_columns :: "decoder \<Rightarrow> string list \<Rightarrow> dataframe \<Rightarrow> calls \<Rightarrow> load_error + dataframe \<times> calls" where
  "decode_columns run [] df log = Inr (df, log)"
| "decode_columns run (col # cols) df log =
     (case get_column df col of
        Inl e \<Rightarrow> Inl e
      | Inr idcodes \<Rightarrow>
          (case set_column df (col @ ''_SMILES'') (fst (decode_idcodes run log idcodes)) of
             Inl e \<Rightarrow> Inl e
           | Inr df' \<Rightarrow> decode_columns run cols df' (snd (decode_idcodes run log idcodes))))"

definition decode_structures_in_dataframe :: "decoder \<Rightarrow> calls \<Rightarrow> dataframe \<Rightarrow> column_info \<Rightarrow> load_error + dataframe \<times> calls" where
  "decode_structures_in_dataframe run log df info =
     (let columns_to_decode = fst (find_idcode_columns_for_decoding df info)
      in if columns_to_decode = [] then Inr (df, log)
         else decode_columns run columns_to_decode df log)"

text \<open>Lines 216-229 of \<open>LoadDwar\<close>: the columns removed when \<open>exclude_structure_columns\<close> is set.\<close>

definition coordinate_patterns :: "string list" where
  "coordinate_patterns = [''coordinate'', ''coord'', ''atomcoord'', ''scaffoldatom'']"

definition is_coordinate_column :: "string \<Rightarrow> bool" where
  "is_coordinate_column col = list_ex (\<lambda>pat. py_in pat (py_lower col)) coordinate_patterns"

definition remove_structure_columns :: "dataframe \<Rightarrow> column_info \<Rightarrow> load_error + dataframe" where
  "remove_structure_columns df info =
     (let original_idcode_columns = snd (find_idcode_columns_for_decoding df info);
          coordinate_columns = filter is_coordinate_column (columns df);
          smiles_columns = filter (\<lambda>col. py_lower col = ''smiles'') (columns df);
          columns_to_remove = remdups (original_idcode_columns @ coordinate_columns @ smiles_columns)
      in if columns_to_remove \<noteq> [] then drop_columns df columns_to_remove else Inr df)"

text \<open>Lines 232-235: the fingerprint columns are removed whatever the flag says.\<close>

definition remove_fp_columns :: "dataframe \<Rightarrow> load_error + dataframe" where
  "remove_fp_columns df =
     (let fp_columns = filter (\<lambda>col. endswith col ''Fp'') (columns df)
      in if fp_columns \<noteq> [] then drop_columns df fp_columns else Inr df)"

text \<open>
  \<open>LoadDwar\<close> (lines 164-237), from the text read from the file on. The parameter
  \<open>smiles_column\<close> is never read by the body and is left out. The result is the table
  together with the batches submitted to the decoder.
\<close>

definition LoadDwar :: "decoder \<Rightarrow> calls \<Rightarrow> string \<Rightarrow> bool \<Rightarrow> load_error + dataframe \<times> calls" where
  "LoadDwar run log content exclude_structure_columns =
     (if \<not> is_dwar_file content then Inl FormatError
      else
        let hdr = fst (find_header_and_data_lines content);
            data = snd (find_header_and_data_lines content)
        in if data = [] then Inr (empty_frame, log)
           else
             let info = extract_column_properties content;
                 df = assemble_table hdr data
             in (case decode_structures_in_dataframe run log df info of
                   Inl e \<Rightarrow> Inl e
                 | Inr (df1, log1) \<Rightarrow>
                     (case (if exclude_structure_columns then remove_structure_columns df1 info else Inr df1) of
                        Inl e \<Rightarrow> Inl e
                      | Inr df2 \<Rightarrow>
                          (case remove_fp_columns df2 of
                             Inl e \<Rightarrow> Inl e
                           | Inr df3 \<Rightarrow> Inr (df3, log1)))))"

section \<open>Notions used in the properties\<close>

text \<open>Two positions holding the same identifier hold the same result.\<close>

definition agree :: "string option list \<Rightarrow> string option list \<Rightarrow> bool" where
  "agree idcodes results =
     (\<forall>i j. i < length idcodes \<longrightarrow> j < length idcodes \<longrightarrow> idcodes ! i = idcodes ! j \<longrightarrow> results ! i = results ! j)"

text \<open>A cell that is \<open>None\<close>, empty or made of whitespace only.\<close>

definition blank_cell :: "string option \<Rightarrow> bool" where
  "blank_cell ic = (case ic of None \<Rightarrow> True | Some s \<Rightarrow> list_all py_isspace s)"

text \<open>A data line all of whose fields are empty, and a table whose rows all have one cell per column.\<close>

definition entirely_empty :: "string list \<Rightarrow> bool" where
  "entirely_empty r = list_all (\<lambda>c. c = []) r"

definition rectangular :: "dataframe \<Rightarrow> bool" where
  "rectangular df = list_all (\<lambda>r. length r = length (columns df)) (rows df)"

text \<open>
  The header as the specification words it, on the lines as they stand in the text: the
  first line after the line with the closing sentinel that does not start with \<open><\<close> or
  \<open>>\<close>, contains a tab and splits into three or more fields.
\<close>

definition raw_header_shape :: "string \<Rightarrow> bool" where
  "raw_header_shape l =
     (\<not> startswith l ''<'' \<and> \<not> startswith l ''>'' \<and> TAB \<in> set l \<and> 3 \<le> length (py_split l [TAB]))"

definition header_by_raw_lines :: "string \<Rightarrow> string list option" where
  "header_by_raw_lines content =
     (case dropWhile (\<lambda>l. \<not> py_in ''</column properties>'' l) (py_split content [LF]) of
        [] \<Rightarrow> None
      | c # after \<Rightarrow>
          (case filter raw_header_shape after of
             [] \<Rightarrow> None
           | h # rest \<Rightarrow> Some (py_split h [TAB])))"

text \<open>
  The same reading on the stripped lines, with the lines that contain a sentinel set aside:
  a line closes the metadata block when it contains the closing sentinel and not the
  opening one; a header candidate and a data candidate contain neither.
\<close>

definition closes_metadata :: "string \<Rightarrow> bool" where
  "closes_metadata l = (\<not> py_in ''<column properties>'' l \<and> py_in ''</column properties>'' l)"

definition body_line :: "string \<Rightarrow> bool" where
  "body_line l =
     (\<not> py_in ''<column properties>'' l \<and> \<not> py_in ''</column properties>'' l \<and>
      l \<noteq> [] \<and> TAB \<in> set l \<and> \<not> startswith l ''<'' \<and> \<not> startswith l ''>'')"

definition header_candidate :: "string \<Rightarrow> bool" where
  "header_candidate l = (body_line l \<and> 3 \<le> length (py_split l [TAB]))"

definition data_candidate :: "string \<Rightarrow> bool" where
  "data_candidate l = (body_line l \<and> \<not> startswith l ''settings='')"

definition body_by_stripped_lines :: "string list \<Rightarrow> string list option \<times> string list list" where
  "body_by_stripped_lines ls =
     (case dropWhile (\<lambda>l. \<not> closes_metadata l) ls of
        [] \<Rightarrow> (None, [])
      | c # after \<Rightarrow>
          (case dropWhile (\<lambda>l. \<not> header_candidate l) after of
             [] \<Rightarrow> (None, [])
           | h # post \<Rightarrow> (Some (py_split h [TAB]), map (\<lambda>l. py_split l [TAB]) (filter data_candidate post))))"

section \<open>Sample decoders and documents\<close>

definition benzene_decoder :: decoder where
  "benzene_decoder n batch = Completed ''0:C1=CC=CC=C1''"

definition timeout_decoder :: decoder where
  "timeout_decoder n batch = TimeoutExpired"

definition garbled_decoder :: decoder where
  "garbled_decoder n batch = Completed ''x:CCO''"

definition metadata_block :: "string \<Rightarrow> string" where
  "metadata_block name =
     ''<column properties>'' @ [LF] @
     ''<columnName='' @ [DQUOTE] @ name @ [DQUOTE] @ ''>'' @ [LF] @
     ''<columnProperty='' @ [DQUOTE] @ ''specialType'' @ [TAB] @ ''idcode'' @ [DQUOTE] @ ''>'' @ [LF] @
     ''</column properties>'' @ [LF]"

definition doc_structure :: string where
  "doc_structure =
     metadata_block ''Structure'' @
     ''ID'' @ [TAB] @ ''Structure'' @ [TAB] @ ''Name'' @ [LF] @
     ''1'' @ [TAB] @ ''ABC'' @ [TAB] @ ''x''"

definition doc_coords :: string where
  "doc_coords =
     metadata_block ''AtomCoords'' @
     ''ID'' @ [TAB] @ ''AtomCoords'' @ [TAB] @ ''Name'' @ [LF] @
     ''1'' @ [TAB] @ ''ABC'' @ [TAB] @ ''x''"

definition doc_smiles :: string where
  "doc_smiles =
     ''<datawarrior-fileinfo>'' @ [LF] @ ''</column properties>'' @ [LF] @
     ''ID'' @ [TAB] @ ''Smiles'' @ [TAB] @ ''FragFp'' @ [LF] @
     ''1'' @ [TAB] @ ''CCO'' @ [TAB] @ ''abc''"

definition doc_trailing_tab :: string where
  "doc_trailing_tab =
     ''</column properties>'' @ [LF] @
     ''A'' @ [TAB] @ ''B'' @ [TAB] @ [LF] @
     ''X'' @ [TAB] @ ''Y'' @ [TAB] @ ''Z'' @ [LF] @
     ''1'' @ [TAB] @ ''2'' @ [TAB] @ ''3''"

definition doc_no_marker :: string where
  "doc_no_marker = ''a'' @ [TAB] @ ''b'' @ [TAB] @ ''c''"

definition doc_unclosed :: string where
  "doc_unclosed =
     ''<datawarrior-fileinfo>'' @ [LF] @
     ''ID'' @ [TAB] @ ''A'' @ [TAB] @ ''B'' @ [LF] @
     ''1'' @ [TAB] @ ''2'' @ [TAB] @ ''3''"

definition doc_ragged :: string where
  "doc_ragged =
     ''<datawarrior-fileinfo>'' @ [LF] @ ''</column properties>'' @ [LF] @
     ''A'' @ [TAB] @ ''B'' @ [TAB] @ ''C'' @ [LF] @
     ''1'' @ [TAB] @ ''2'' @ [TAB] @ ''3'' @ [LF] @
     ''4'' @ [TAB] @ ''5''"

section \<open>The batch decoder: length, agreement and the submitted batch\<close>

lemma length_assign_all:
  "length results = length idcodes \<Longrightarrow> length (assign_all idcodes d s results) = length idcodes"
  by (simp add: assign_all_def)

lemma nth_assign_all:
  "length results = length idcodes \<Longrightarrow> i < length idcodes \<Longrightarrow>
   assign_all idcodes d s results ! i = (if idcodes ! i = Some d then Some s else results ! i)"
  by (simp add: assign_all_def)

lemma parse_results_length:
  "parse_results valid idcodes lines results = Inr res \<Longrightarrow> length results = length idcodes \<Longrightarrow>
   length res = length idcodes"
proof (induction lines arbitrary: results)
  case Nil
  then show ?case by simp
next
  case (Cons line lines)
  then show ?case
    by (auto split: sum.splits option.splits simp: length_assign_all)
qed

lemma agree_replicate: "agree idcodes (replicate (length idcodes) None)"
  by (simp add: agree_def)

lemma agree_assign_all:
  assumes len: "length results = length idcodes" and ag: "agree idcodes results"
  shows "agree idcodes (assign_all idcodes d s results)"
  unfolding agree_def
proof (intro allI impI)
  fix i j
  assume ij: "i < length idcodes" "j < length idcodes" "idcodes ! i = idcodes ! j"
  from ag ij have "results ! i = results ! j"
    unfolding agree_def by blast
  with ij len show "assign_all idcodes d s results ! i = assign_all idcodes d s results ! j"
    by (simp only: nth_assign_all)
qed

lemma parse_results_agree:
  "parse_results valid idcodes lines results = Inr res \<Longrightarrow> length results = length idcodes \<Longrightarrow>
   agree idcodes results \<Longrightarrow> agree idcodes res"
proof (induction lines arbitrary: results)
  case Nil
  then show ?case by simp
next
  case (Cons line lines)
  then show ?case
    by (auto split: sum.splits option.splits simp: length_assign_all agree_assign_all)
qed

text \<open>The results of \<open>decode_idcodes\<close>: all absent, or what the loop over the output lines built.\<close>

lemma decode_idcodes_cases:
  obtains (absent) "fst (decode_idcodes run log idcodes) = replicate (length idcodes) None"
  | (parsed) out res where "run (length log) (valid_idcodes idcodes) = Completed out"
      and "parse_results (valid_idcodes idcodes) idcodes (splitlines out) (replicate (length idcodes) None) = Inr res"
      and "fst (decode_idcodes run log idcodes) = res"
proof (cases "idcodes = [] \<or> valid_idcodes idcodes = []")
  case True
  then have "fst (decode_idcodes run log idcodes) = replicate (length idcodes) None"
    by (auto simp: decode_idcodes_def)
  then show ?thesis by (rule absent)
next
  case False
  show ?thesis
  proof (cases "run (length log) (valid_idcodes idcodes)")
    case (Completed out)
    show ?thesis
    proof (cases "parse_results (valid_idcodes idcodes) idcodes (splitlines out) (replicate (length idcodes) None)")
      case (Inl e)
      with False Completed have "fst (decode_idcodes run log idcodes) = replicate (length idcodes) None"
        by (simp add: decode_idcodes_def)
      then show ?thesis by (rule absent)
    next
      case (Inr res)
      with False Completed have "fst (decode_idcodes run log idcodes) = res"
        by (simp add: decode_idcodes_def)
      with Completed Inr show ?thesis by (rule parsed)
    qed
  next
    case TimeoutExpired
    with False have "fst (decode_idcodes run log idcodes) = replicate (length idcodes) None"
      by (simp add: decode_idcodes_def)
    then show ?thesis by (rule absent)
  next
    case CalledProcessError
    with False have "fst (decode_idcodes run log idcodes) = replicate (length idcodes) None"
      by (simp add: decode_idcodes_def)
    then show ?thesis by (rule absent)
  next
    case OtherException
    with False have "fst (decode_idcodes run log idcodes) = replicate (length idcodes) None"
      by (simp add: decode_idcodes_def)
    then show ?thesis by (rule absent)
  qed
qed

lemma length_decode_idcodes: "length (fst (decode_idcodes run log idcodes)) = length idcodes"
proof (cases rule: decode_idcodes_cases[of run log idcodes])
  case absent
  then show ?thesis by simp
next
  case (parsed out res)
  from parse_results_length[OF parsed(2)] parsed(3) show ?thesis by simp
qed

lemma decode_idcodes_failed:
  assumes "run (length log) (valid_idcodes idcodes) \<in> {TimeoutExpired, CalledProcessError, OtherException}"
  shows "fst (decode_idcodes run log idcodes) = replicate (length idcodes) None"
proof (cases rule: decode_idcodes_cases[of run log idcodes])
  case absent
  then show ?thesis .
next
  case (parsed out res)
  with assms show ?thesis by auto
qed

lemma decode_idcodes_raised:
  assumes "run (length log) (valid_idcodes idcodes) = Completed out"
    and "parse_results (valid_idcodes idcodes) idcodes (splitlines out) (replicate (length idcodes) None) = Inl e"
  shows "fst (decode_idcodes run log idcodes) = replicate (length idcodes) None"
proof (cases rule: decode_idcodes_cases[of run log idcodes])
  case absent
  then show ?thesis .
next
  case (parsed out' res)
  with assms show ?thesis by auto
qed

lemma strip_all_space:
  assumes "list_all py_isspace s"
  shows "py_strip s = []"
proof -
  from assms have h: "dropWhile py_isspace s = []"
    by (simp add: list_all_iff)
  show ?thesis
    unfolding py_strip_def by (simp only: h rev.simps dropWhile.simps)
qed

lemma blank_not_nonblank: "blank_cell ic \<Longrightarrow> \<not> nonblank ic"
  by (cases ic) (simp_all add: blank_cell_def nonblank_def strip_all_space)

lemma valid_idcodes_Nil: "(\<forall>ic\<in>set idcodes. \<not> nonblank ic) \<Longrightarrow> valid_idcodes idcodes = []"
  by (induction idcodes) (simp_all add: valid_idcodes_def List.map_filter_simps)

lemma valid_idcodes_filter: "map Some (valid_idcodes idcodes) = filter nonblank idcodes"
proof (induction idcodes)
  case Nil
  show ?case by (simp add: valid_idcodes_def List.map_filter_simps)
next
  case (Cons ic idcodes)
  then show ?case
    by (cases ic) (simp_all add: valid_idcodes_def List.map_filter_simps nonblank_def)
qed

lemma decode_idcodes_calls:
  "snd (decode_idcodes run log idcodes) =
     (if valid_idcodes idcodes = [] then log else log @ [valid_idcodes idcodes])"
proof (cases "idcodes = []")
  case True
  then show ?thesis
    by (simp add: decode_idcodes_def valid_idcodes_def List.map_filter_simps)
next
  case False
  then show ?thesis
    by (simp add: decode_idcodes_def Let_def split: proc_result.splits sum.splits)
qed

lemma parse_results_append:
  "parse_results valid idcodes (pre @ post) results =
     (case parse_results valid idcodes pre results of
        Inl e \<Rightarrow> Inl e
      | Inr mid \<Rightarrow> parse_results valid idcodes post mid)"
  by (induction pre arbitrary: results) (auto split: sum.splits option.splits)

lemma parse_results_ok:
  "\<forall>l\<in>set lines. \<not> isl (resolve_line valid l) \<Longrightarrow>
   \<exists>res. parse_results valid idcodes lines results = Inr res"
  by (induction lines arbitrary: results) (auto split: sum.splits option.splits)

lemma parse_results_keep:
  "parse_results valid idcodes lines results = Inr res \<Longrightarrow> length results = length idcodes \<Longrightarrow>
   \<forall>l\<in>set lines. \<forall>s. resolve_line valid l \<noteq> Inr (Some (d, s)) \<Longrightarrow>
   i < length idcodes \<Longrightarrow> idcodes ! i = Some d \<Longrightarrow> res ! i = results ! i"
proof (induction lines arbitrary: results)
  case Nil
  then show ?case by simp
next
  case (Cons line lines)
  show ?case
  proof (cases "resolve_line valid line")
    case (Inl e)
    with Cons.prems show ?thesis by simp
  next
    case (Inr r)
    show ?thesis
    proof (cases r)
      case None
      with Inr Cons show ?thesis by simp
    next
      case (Some p)
      obtain d' s' where p: "p = (d', s')" by (cases p)
      from Cons.prems(3) Inr Some p have neq: "d' \<noteq> d" by auto
      from Cons.prems(1) Inr Some p
      have run: "parse_results valid idcodes lines (assign_all idcodes d' s' results) = Inr res" by simp
      have "res ! i = assign_all idcodes d' s' results ! i"
        using Cons.IH[OF run] Cons.prems by (simp add: length_assign_all)
      also have "\<dots> = results ! i"
        using Cons.prems neq by (simp add: nth_assign_all)
      finally show ?thesis .
    qed
  qed
qed

text \<open>
  The last output line that resolves to an identifier decides the result of every position
  holding that identifier, when no line raises.
\<close>

lemma parse_results_last:
  assumes ok: "\<forall>l\<in>set (pre @ line # post). \<not> isl (resolve_line valid l)"
    and line: "resolve_line valid line = Inr (Some (d, s))"
    and post: "\<forall>l\<in>set post. \<forall>s'. resolve_line valid l \<noteq> Inr (Some (d, s'))"
    and len: "length results = length idcodes"
  shows "\<exists>res. parse_results valid idcodes (pre @ line # post) results = Inr res \<and>
           (\<forall>i<length idcodes. idcodes ! i = Some d \<longrightarrow> res ! i = Some s)"
proof -
  from parse_results_ok[OF ok] obtain res
    where res: "parse_results valid idcodes (pre @ line # post) results = Inr res" by blast
  then obtain mid where mid: "parse_results valid idcodes pre results = Inr mid"
    and rest: "parse_results valid idcodes (line # post) mid = Inr res"
    by (auto simp: parse_results_append split: sum.splits)
  from parse_results_length[OF mid len] have lmid: "length mid = length idcodes" .
  from rest line have tail: "parse_results valid idcodes post (assign_all idcodes d s mid) = Inr res"
    by simp
  have "\<forall>i<length idcodes. idcodes ! i = Some d \<longrightarrow> res ! i = Some s"
  proof (intro allI impI)
    fix i assume i: "i < length idcodes" "idcodes ! i = Some d"
    from parse_results_keep[OF tail _ post i] lmid
    have "res ! i = assign_all idcodes d s mid ! i"
      by (simp add: length_assign_all)
    with i lmid show "res ! i = Some s"
      by (simp add: nth_assign_all)
  qed
  with res show ?thesis by blast
qed

lemma py_getitem_Nil: "py_getitem [] k = Inl IndexError"
  by (simp add: py_getitem_def)

lemma resolve_line_Some_nonempty:
  assumes "resolve_line valid line = Inr (Some p)"
  shows "valid \<noteq> []"
proof
  assume "valid = []"
  have "resolve_line [] line \<noteq> Inr (Some p)"
    by (simp add: resolve_line_def py_getitem_Nil case_prod_beta split: option.splits)
  with assms \<open>valid = []\<close> show False by simp
qed

section \<open>Claims about the batch decoder\<close>

text \<open>
  C5. \<open>decode_idcodes\<close> returns a list as long as its input, whatever the decoder does;
  the model has no error result, as every exception of the call is caught. When the call
  to the decoder times out, ends with a non-zero status or raises another exception, and
  also when reading its output raises (an index that is no integer or out of range), the
  result is the all-absent list of that length.
\<close>

theorem decode_idcodes_length_and_failure:
  "length (fst (decode_idcodes run log idcodes)) = length idcodes \<and>
   (run (length log) (valid_idcodes idcodes) \<in> {TimeoutExpired, CalledProcessError, OtherException}
      \<longrightarrow> fst (decode_idcodes run log idcodes) = replicate (length idcodes) None) \<and>
   (run (length log) (valid_idcodes idcodes) = Completed out \<and>
    parse_results (valid_idcodes idcodes) idcodes (splitlines out) (replicate (length idcodes) None) = Inl e
      \<longrightarrow> fst (decode_idcodes run log idcodes) = replicate (length idcodes) None)"
  using length_decode_idcodes decode_idcodes_failed decode_idcodes_raised by blast

theorem decode_idcodes_length_and_failure_witness:
  "timeout_decoder (length ([] :: calls)) (valid_idcodes [Some ''ABC'', Some ''D''])
     \<in> {TimeoutExpired, CalledProcessError, OtherException} \<and>
   fst (decode_idcodes timeout_decoder [] [Some ''ABC'', Some ''D'']) = [None, None] \<and>
   garbled_decoder (length ([] :: calls)) (valid_idcodes [Some ''ABC'', Some ''D'']) = Completed ''x:CCO'' \<and>
   parse_results (valid_idcodes [Some ''ABC'', Some ''D'']) [Some ''ABC'', Some ''D''] (splitlines ''x:CCO'')
     (replicate (length [Some ''ABC'', Some ''D'']) None) = Inl ValueError \<and>
   fst (decode_idcodes garbled_decoder [] [Some ''ABC'', Some ''D'']) = [None, None]"
proof -
  let ?ids = "[Some ''ABC'', Some ''D'']"
  have h: "timeout_decoder (length ([] :: calls)) (valid_idcodes ?ids)
     \<in> {TimeoutExpired, CalledProcessError, OtherException}"
    by (simp add: timeout_decoder_def)
  note t = decode_idcodes_length_and_failure[of timeout_decoder "[]" ?ids, THEN conjunct2, THEN conjunct1, THEN mp, OF h]
  from t have r1: "fst (decode_idcodes timeout_decoder [] ?ids) = [None, None]"
    by simp
  have g: "garbled_decoder (length ([] :: calls)) (valid_idcodes ?ids) = Completed ''x:CCO''"
    by (simp add: garbled_decoder_def)
  have p: "parse_results (valid_idcodes ?ids) ?ids (splitlines ''x:CCO'') (replicate (length ?ids) None) = Inl ValueError"
    by code_simp
  from g p have gp: "garbled_decoder (length ([] :: calls)) (valid_idcodes ?ids) = Completed ''x:CCO'' \<and>
      parse_results (valid_idcodes ?ids) ?ids (splitlines ''x:CCO'') (replicate (length ?ids) None) = Inl ValueError" ..
  note u = decode_idcodes_length_and_failure[of garbled_decoder "[]" ?ids "''x:CCO''" ValueError,
      THEN conjunct2, THEN conjunct2, THEN mp, OF gp]
  from u have r2: "fst (decode_idcodes garbled_decoder [] ?ids) = [None, None]"
    by simp
  from h r1 g p r2 show ?thesis by (intro conjI)
qed

text \<open>
  C6. Two positions of the input that hold the same identifier receive the same result.
  This holds for every output of the decoder, so in particular when a line of the output
  that is no error resolves to that identifier.
\<close>

theorem decode_idcodes_duplicates_agree:
  "i < length idcodes \<Longrightarrow> j < length idcodes \<Longrightarrow> idcodes ! i = idcodes ! j \<Longrightarrow>
   fst (decode_idcodes run log idcodes) ! i = fst (decode_idcodes run log idcodes) ! j"
proof -
  assume ij: "i < length idcodes" "j < length idcodes" "idcodes ! i = idcodes ! j"
  have "agree idcodes (fst (decode_idcodes run log idcodes))"
  proof (cases rule: decode_idcodes_cases[of run log idcodes])
    case absent
    then show ?thesis by (simp add: agree_replicate)
  next
    case (parsed out res)
    from parse_results_agree[OF parsed(2) _ agree_replicate] parsed(3) show ?thesis by simp
  qed
  with ij show ?thesis
    unfolding agree_def by blast
qed

theorem decode_idcodes_duplicates_agree_witness:
  "(0::nat) < length [Some ''ABC'', None, Some ''ABC''] \<and> (2::nat) < length [Some ''ABC'', None, Some ''ABC''] \<and>
   [Some ''ABC'', None, Some ''ABC''] ! 0 = [Some ''ABC'', None, Some ''ABC''] ! 2 \<and>
   fst (decode_idcodes benzene_decoder [] [Some ''ABC'', None, Some ''ABC'']) ! 0 = Some ''C1=CC=CC=C1'' \<and>
   fst (decode_idcodes benzene_decoder [] [Some ''ABC'', None, Some ''ABC'']) ! 2 = Some ''C1=CC=CC=C1''"
proof -
  have h0: "(0::nat) < length [Some ''ABC'', None, Some ''ABC'']" by simp
  have h2: "(2::nat) < length [Some ''ABC'', None, Some ''ABC'']" by simp
  have eq: "[Some ''ABC'', None, Some ''ABC''] ! 0 = [Some ''ABC'', None, Some ''ABC''] ! 2" by simp
  have v0: "fst (decode_idcodes benzene_decoder [] [Some ''ABC'', None, Some ''ABC'']) ! 0 = Some ''C1=CC=CC=C1''"
    by code_simp
  from decode_idcodes_duplicates_agree[OF h0 h2 eq, of benzene_decoder "[]"] v0
  have "fst (decode_idcodes benzene_decoder [] [Some ''ABC'', None, Some ''ABC'']) ! 2 = Some ''C1=CC=CC=C1''"
    by simp
  with h0 h2 eq v0 show ?thesis by blast
qed

text \<open>
  C7. When every entry of the input is absent, empty or made of whitespace only, the
  decoder is not called (the list of submitted batches is unchanged) and the result is
  the all-absent list of the input's length.
\<close>

theorem decode_idcodes_all_blank:
  "\<forall>ic\<in>set idcodes. blank_cell ic \<Longrightarrow>
   decode_idcodes run log idcodes = (replicate (length idcodes) None, log)"
proof -
  assume "\<forall>ic\<in>set idcodes. blank_cell ic"
  then have "\<forall>ic\<in>set idcodes. \<not> nonblank ic"
    by (simp add: blank_not_nonblank)
  then have "valid_idcodes idcodes = []"
    by (rule valid_idcodes_Nil)
  then show ?thesis
    by (simp add: decode_idcodes_def)
qed

theorem decode_idcodes_all_blank_witness:
  "list_all blank_cell [Some [], Some ('' '' @ [TAB]), Some '' ''] \<and>
   decode_idcodes benzene_decoder [] [Some [], Some ('' '' @ [TAB]), Some '' ''] = ([None, None, None], [])"
proof -
  have h: "\<forall>ic\<in>set [Some [], Some ('' '' @ [TAB]), Some '' '']. blank_cell ic"
    by (simp add: blank_cell_def py_isspace_def)
  from decode_idcodes_all_blank[OF h, of benzene_decoder "[]"] h show ?thesis
    by simp
qed

text \<open>
  C1, as the program has it. The batch submitted to the decoder is the list of the
  non-blank entries of the column in their order, one entry for every row that holds one:
  an identifier that occurs twice is submitted twice. The decoder is called once when
  there is such an entry and not at all otherwise. A result is mapped back by value: when
  no output line raises, the last line that resolves to an identifier gives its result to
  every position of the column that holds this identifier.
\<close>

theorem decode_idcodes_batch_and_remap:
  "map Some (valid_idcodes idcodes) = filter nonblank idcodes \<and>
   snd (decode_idcodes run log idcodes) =
     (if valid_idcodes idcodes = [] then log else log @ [valid_idcodes idcodes]) \<and>
   (run (length log) (valid_idcodes idcodes) = Completed out \<and>
    splitlines out = pre @ line # post \<and>
    (\<forall>l\<in>set (splitlines out). \<not> isl (resolve_line (valid_idcodes idcodes) l)) \<and>
    resolve_line (valid_idcodes idcodes) line = Inr (Some (d, s)) \<and>
    (\<forall>l\<in>set post. \<forall>s'. resolve_line (valid_idcodes idcodes) l \<noteq> Inr (Some (d, s')))
    \<longrightarrow> (\<forall>i<length idcodes. idcodes ! i = Some d \<longrightarrow> fst (decode_idcodes run log idcodes) ! i = Some s))"
proof (intro conjI impI)
  show "map Some (valid_idcodes idcodes) = filter nonblank idcodes"
    by (rule valid_idcodes_filter)
  show "snd (decode_idcodes run log idcodes) =
     (if valid_idcodes idcodes = [] then log else log @ [valid_idcodes idcodes])"
    by (rule decode_idcodes_calls)
next
  let ?valid = "valid_idcodes idcodes"
  assume h: "run (length log) ?valid = Completed out \<and>
    splitlines out = pre @ line # post \<and>
    (\<forall>l\<in>set (splitlines out). \<not> isl (resolve_line ?valid l)) \<and>
    resolve_line ?valid line = Inr (Some (d, s)) \<and>
    (\<forall>l\<in>set post. \<forall>s'. resolve_line ?valid l \<noteq> Inr (Some (d, s')))"
  then have ok: "\<forall>l\<in>set (pre @ line # post). \<not> isl (resolve_line ?valid l)"
    by simp
  from h have line: "resolve_line ?valid line = Inr (Some (d, s))"
    and post: "\<forall>l\<in>set post. \<forall>s'. resolve_line ?valid l \<noteq> Inr (Some (d, s'))"
    and out: "run (length log) ?valid = Completed out"
    and lines: "splitlines out = pre @ line # post"
    by simp_all
  have len: "length (replicate (length idcodes) (None :: string option)) = length idcodes"
    by simp
  from parse_results_last[OF ok line post len] lines obtain res
    where res: "parse_results ?valid idcodes (splitlines out) (replicate (length idcodes) None) = Inr res"
      and all: "\<forall>i<length idcodes. idcodes ! i = Some d \<longrightarrow> res ! i = Some s"
    by auto
  have "fst (decode_idcodes run log idcodes) = res"
  proof (cases rule: decode_idcodes_cases[of run log idcodes])
    case absent
    from line have "?valid \<noteq> []"
      by (rule resolve_line_Some_nonempty)
    then have "idcodes \<noteq> []"
      by (auto simp: valid_idcodes_def List.map_filter_simps)
    with \<open>?valid \<noteq> []\<close> out res show ?thesis
      by (simp add: decode_idcodes_def)
  next
    case (parsed out' res')
    with out res show ?thesis by simp
  qed
  with all show "\<forall>i<length idcodes. idcodes ! i = Some d \<longrightarrow> fst (decode_idcodes run log idcodes) ! i = Some s"
    by simp
qed

theorem decode_idcodes_batch_and_remap_witness:
  "benzene_decoder (length ([] :: calls)) (valid_idcodes [Some ''ABC'', Some ''ABC'']) = Completed ''0:C1=CC=CC=C1'' \<and>
   splitlines ''0:C1=CC=CC=C1'' = [] @ ''0:C1=CC=CC=C1'' # [] \<and>
   resolve_line (valid_idcodes [Some ''ABC'', Some ''ABC'']) ''0:C1=CC=CC=C1'' = Inr (Some (''ABC'', ''C1=CC=CC=C1'')) \<and>
   snd (decode_idcodes benzene_decoder [] [Some ''ABC'', Some ''ABC'']) = [[''ABC'', ''ABC'']] \<and>
   fst (decode_idcodes benzene_decoder [] [Some ''ABC'', Some ''ABC'']) ! 0 = Some ''C1=CC=CC=C1'' \<and>
   fst (decode_idcodes benzene_decoder [] [Some ''ABC'', Some ''ABC'']) ! 1 = Some ''C1=CC=CC=C1''"
proof -
  let ?ids = "[Some ''ABC'', Some ''ABC'']"
  have v: "valid_idcodes ?ids = [''ABC'', ''ABC'']" by code_simp
  have h1: "benzene_decoder (length ([] :: calls)) (valid_idcodes ?ids) = Completed ''0:C1=CC=CC=C1''"
    by (simp add: benzene_decoder_def)
  have h2: "splitlines ''0:C1=CC=CC=C1'' = [] @ ''0:C1=CC=CC=C1'' # []" by code_simp
  have h4: "resolve_line (valid_idcodes ?ids) ''0:C1=CC=CC=C1'' = Inr (Some (''ABC'', ''C1=CC=CC=C1''))"
    by code_simp
  from h2 h4 have h3: "\<forall>l\<in>set (splitlines ''0:C1=CC=CC=C1''). \<not> isl (resolve_line (valid_idcodes ?ids) l)"
    by simp
  have h5: "\<forall>l\<in>set []. \<forall>s'. resolve_line (valid_idcodes ?ids) l \<noteq> Inr (Some (''ABC'', s'))"
    by simp
  note inst = decode_idcodes_batch_and_remap[of ?ids benzene_decoder "[]" "''0:C1=CC=CC=C1''" "[]" "''0:C1=CC=CC=C1''" "[]" "''ABC''" "''C1=CC=CC=C1''"]
  from inst[THEN conjunct2, THEN conjunct1]
  have calls: "snd (decode_idcodes benzene_decoder [] ?ids) = [[''ABC'', ''ABC'']]"
    by (simp only: v) simp
  have hyp: "benzene_decoder (length ([] :: calls)) (valid_idcodes ?ids) = Completed ''0:C1=CC=CC=C1'' \<and>
    splitlines ''0:C1=CC=CC=C1'' = [] @ ''0:C1=CC=CC=C1'' # [] \<and>
    (\<forall>l\<in>set (splitlines ''0:C1=CC=CC=C1''). \<not> isl (resolve_line (valid_idcodes ?ids) l)) \<and>
    resolve_line (valid_idcodes ?ids) ''0:C1=CC=CC=C1'' = Inr (Some (''ABC'', ''C1=CC=CC=C1'')) \<and>
    (\<forall>l\<in>set []. \<forall>s'. resolve_line (valid_idcodes ?ids) l \<noteq> Inr (Some (''ABC'', s')))"
    using h1 h2 h3 h4 h5 by (intro conjI)
  note remap = inst[THEN conjunct2, THEN conjunct2, THEN mp, OF hyp, rule_format]
  have r0: "fst (decode_idcodes benzene_decoder [] ?ids) ! 0 = Some ''C1=CC=CC=C1''"
    by (rule remap) simp_all
  have r1: "fst (decode_idcodes benzene_decoder [] ?ids) ! 1 = Some ''C1=CC=CC=C1''"
    by (rule remap) simp_all
  from h1 h2 h4 calls r0 r1 show ?thesis by (intro conjI)
qed

text \<open>
  C1 as the specification states it fails: for the column \<open>["ABC", "ABC"]\<close> the decoder
  receives the batch \<open>["ABC", "ABC"]\<close>, not \<open>["ABC"]\<close>.
\<close>

theorem decode_idcodes_batch_not_deduplicated:
  "snd (decode_idcodes benzene_decoder [] [Some ''ABC'', Some ''ABC'']) = [[''ABC'', ''ABC'']] \<and>
   snd (decode_idcodes benzene_decoder [] [Some ''ABC'', Some ''ABC'']) \<noteq> [[''ABC'']]"
  by code_simp


section \<open>The table operations\<close>

lemma filter_zip_fst:
  "length r = length cs \<Longrightarrow> map fst (filter (\<lambda>(c, x). Q c) (zip cs r)) = filter Q cs"
  by (induction cs r rule: list_induct2') auto

lemma length_filter_zip:
  assumes "length r = length cs"
  shows "length (map snd (filter (\<lambda>(c, x). Q c) (zip cs r))) = length (filter Q cs)"
proof -
  have "length (map snd (filter (\<lambda>(c, x). Q c) (zip cs r))) = length (map fst (filter (\<lambda>(c, x). Q c) (zip cs r)))"
    by simp
  also have "\<dots> = length (filter Q cs)"
    by (simp only: filter_zip_fst[OF assms])
  finally show ?thesis .
qed

lemma set_column_result:
  assumes "set_column df name vals = Inr df'"
  shows "columns df' = (if name \<in> set (columns df) then columns df else columns df @ [name])"
    and "length (rows df') = length (rows df)"
    and "rectangular df \<Longrightarrow> rectangular df'"
proof -
  from assms have len: "length vals = length (rows df)"
    by (auto simp: set_column_def split: if_splits)
  show "columns df' = (if name \<in> set (columns df) then columns df else columns df @ [name])"
    using assms by (auto simp: set_column_def split: if_splits)
  show "length (rows df') = length (rows df)"
    using assms len by (auto simp: set_column_def split: if_splits)
  show "rectangular df'" if rect: "rectangular df"
  proof (cases "name \<in> set (columns df)")
    case True
    with assms len
    have rows: "rows df' = map (\<lambda>(r, v). map (\<lambda>(c, x). if c = name then v else x) (zip (columns df) r)) (zip (rows df) vals)"
      and cols: "columns df' = columns df"
      by (auto simp: set_column_def)
    show ?thesis
      unfolding rectangular_def list_all_iff
    proof
      fix r' assume "r' \<in> set (rows df')"
      with rows obtain r v where rv: "(r, v) \<in> set (zip (rows df) vals)"
        and r': "r' = map (\<lambda>(c, x). if c = name then v else x) (zip (columns df) r)"
        by auto
      from rv have "r \<in> set (rows df)" by (rule set_zip_leftD)
      with rect have "length r = length (columns df)"
        by (simp add: rectangular_def list_all_iff)
      with r' cols show "length r' = length (columns df')" by simp
    qed
  next
    case False
    with assms len
    have rows: "rows df' = map (\<lambda>(r, v). r @ [v]) (zip (rows df) vals)"
      and cols: "columns df' = columns df @ [name]"
      by (auto simp: set_column_def)
    show ?thesis
      unfolding rectangular_def list_all_iff
    proof
      fix r' assume "r' \<in> set (rows df')"
      with rows obtain r v where rv: "(r, v) \<in> set (zip (rows df) vals)" and r': "r' = r @ [v]"
        by auto
      from rv have "r \<in> set (rows df)" by (rule set_zip_leftD)
      with rect have "length r = length (columns df)"
        by (simp add: rectangular_def list_all_iff)
      with r' cols show "length r' = length (columns df')" by simp
    qed
  qed
qed

lemma drop_columns_result:
  assumes "drop_columns df names = Inr df'"
  shows "columns df' = filter (\<lambda>c. c \<notin> set names) (columns df)"
    and "length (rows df') = length (rows df)"
    and "rectangular df \<Longrightarrow> rectangular df'"
proof -
  from assms have df': "df' = \<lparr>columns = filter (\<lambda>c. c \<notin> set names) (columns df),
      rows = map (\<lambda>r. map snd (filter (\<lambda>(c, x). c \<notin> set names) (zip (columns df) r))) (rows df)\<rparr>"
    by (auto simp: drop_columns_def split: if_splits)
  show "columns df' = filter (\<lambda>c. c \<notin> set names) (columns df)"
    by (simp add: df')
  show "length (rows df') = length (rows df)"
    by (simp add: df')
  show "rectangular df'" if rect: "rectangular df"
    unfolding rectangular_def list_all_iff
  proof
    fix r' assume "r' \<in> set (rows df')"
    then obtain r where r: "r \<in> set (rows df)"
      and r': "r' = map snd (filter (\<lambda>(c, x). c \<notin> set names) (zip (columns df) r))"
      by (auto simp: df')
    from r rect have "length r = length (columns df)"
      by (simp add: rectangular_def list_all_iff)
    from length_filter_zip[OF this] r' show "length r' = length (columns df')"
      by (simp add: df')
  qed
qed

text \<open>Decoding adds columns and touches neither the number of rows nor their width.\<close>

lemma decode_columns_result:
  "decode_columns run cols df log = Inr (df', log') \<Longrightarrow>
   set (columns df) \<subseteq> set (columns df') \<and>
   (\<forall>c\<in>set cols. c @ ''_SMILES'' \<in> set (columns df')) \<and>
   length (rows df') = length (rows df) \<and>
   (rectangular df \<longrightarrow> rectangular df')"
proof (induction cols arbitrary: df log)
  case Nil
  then show ?case by simp
next
  case (Cons col cols)
  from Cons.prems obtain idcodes where get: "get_column df col = Inr idcodes"
    by (cases "get_column df col") auto
  let ?vals = "fst (decode_idcodes run log idcodes)"
  from Cons.prems get obtain df1 where put: "set_column df (col @ ''_SMILES'') ?vals = Inr df1"
    by (cases "set_column df (col @ ''_SMILES'') ?vals") auto
  from Cons.prems get put
  have rest: "decode_columns run cols df1 (snd (decode_idcodes run log idcodes)) = Inr (df', log')"
    by simp
  note ih = Cons.IH[OF rest]
  note step = set_column_result[OF put]
  from step(1) have sub: "set (columns df) \<subseteq> set (columns df1)" and new: "col @ ''_SMILES'' \<in> set (columns df1)"
    by (auto split: if_splits)
  from ih sub have "set (columns df) \<subseteq> set (columns df')" by blast
  moreover from ih new have "\<forall>c\<in>set (col # cols). c @ ''_SMILES'' \<in> set (columns df')" by auto
  moreover from ih step(2) have "length (rows df') = length (rows df)" by simp
  moreover from ih step(3) have "rectangular df \<longrightarrow> rectangular df'" by blast
  ultimately show ?case by blast
qed

lemma decode_structures_result:
  assumes "decode_structures_in_dataframe run log df info = Inr (df', log')"
  shows "set (columns df) \<subseteq> set (columns df')"
    and "\<forall>c\<in>set (fst (find_idcode_columns_for_decoding df info)). c @ ''_SMILES'' \<in> set (columns df')"
    and "length (rows df') = length (rows df)"
    and "rectangular df \<Longrightarrow> rectangular df'"
proof -
  let ?cols = "fst (find_idcode_columns_for_decoding df info)"
  have all: "set (columns df) \<subseteq> set (columns df') \<and>
   (\<forall>c\<in>set ?cols. c @ ''_SMILES'' \<in> set (columns df')) \<and>
   length (rows df') = length (rows df) \<and> (rectangular df \<longrightarrow> rectangular df')"
  proof (cases "?cols = []")
    case True
    with assms have "df' = df" by (simp add: decode_structures_in_dataframe_def)
    with True show ?thesis by simp
  next
    case False
    with assms have "decode_columns run ?cols df log = Inr (df', log')"
      by (simp add: decode_structures_in_dataframe_def)
    then show ?thesis by (rule decode_columns_result)
  qed
  from all show "set (columns df) \<subseteq> set (columns df')" by blast
  from all show "\<forall>c\<in>set ?cols. c @ ''_SMILES'' \<in> set (columns df')" by blast
  from all show "length (rows df') = length (rows df)" by blast
  from all show "rectangular df \<Longrightarrow> rectangular df'" by blast
qed

text \<open>What the two removal steps leave.\<close>

lemma remove_structure_columns_cases [consumes 1, case_names same dropped]:
  assumes "remove_structure_columns df info = Inr df'"
  obtains (same) "df' = df"
      and "\<forall>c\<in>set (columns df). c \<notin> set (snd (find_idcode_columns_for_decoding df info)) \<and>
              \<not> is_coordinate_column c \<and> py_lower c \<noteq> ''smiles''"
  | (dropped) names where "drop_columns df names = Inr df'"
      and "set names = set (snd (find_idcode_columns_for_decoding df info)) \<union>
             {c \<in> set (columns df). is_coordinate_column c} \<union> {c \<in> set (columns df). py_lower c = ''smiles''}"
proof -
  let ?idc = "snd (find_idcode_columns_for_decoding df info)"
  let ?rm = "remdups (?idc @ filter is_coordinate_column (columns df) @
               filter (\<lambda>col. py_lower col = ''smiles'') (columns df))"
  have idc_sub: "set ?idc \<subseteq> set (columns df)"
    by (auto simp: find_idcode_columns_for_decoding_def Let_def is_idcode_entry_def)
  show ?thesis
  proof (cases "?rm = []")
    case True
    with assms have eq: "df' = df"
      by (simp add: remove_structure_columns_def Let_def)
    from True have "?idc = []" and "filter is_coordinate_column (columns df) = []"
      and "filter (\<lambda>col. py_lower col = ''smiles'') (columns df) = []"
      by simp_all
    then have "\<forall>c\<in>set (columns df). c \<notin> set ?idc \<and> \<not> is_coordinate_column c \<and> py_lower c \<noteq> ''smiles''"
      by (simp add: filter_empty_conv)
    with eq show ?thesis by (rule same)
  next
    case False
    with assms have "drop_columns df ?rm = Inr df'"
      by (simp add: remove_structure_columns_def Let_def)
    moreover have "set ?rm = set ?idc \<union> {c \<in> set (columns df). is_coordinate_column c} \<union>
        {c \<in> set (columns df). py_lower c = ''smiles''}"
      by auto
    ultimately show ?thesis by (rule dropped)
  qed
qed

lemma remove_structure_columns_result:
  assumes "remove_structure_columns df info = Inr df'"
  shows "set (columns df') =
           {c \<in> set (columns df). c \<notin> set (snd (find_idcode_columns_for_decoding df info)) \<and>
                        \<not> is_coordinate_column c \<and> py_lower c \<noteq> ''smiles''}"
    and "length (rows df') = length (rows df)"
    and "rectangular df \<Longrightarrow> rectangular df'"
proof -
  show "set (columns df') =
           {c \<in> set (columns df). c \<notin> set (snd (find_idcode_columns_for_decoding df info)) \<and>
                        \<not> is_coordinate_column c \<and> py_lower c \<noteq> ''smiles''}"
    using assms
  proof (cases rule: remove_structure_columns_cases)
    case same
    then show ?thesis by blast
  next
    case (dropped names)
    from drop_columns_result(1)[OF dropped(1)] dropped(2) show ?thesis by auto
  qed
  show "length (rows df') = length (rows df)"
    using assms
  proof (cases rule: remove_structure_columns_cases)
    case same
    then show ?thesis by simp
  next
    case (dropped names)
    from drop_columns_result(2)[OF dropped(1)] show ?thesis .
  qed
  show "rectangular df'" if "rectangular df"
    using assms
  proof (cases rule: remove_structure_columns_cases)
    case same
    with that show ?thesis by simp
  next
    case (dropped names)
    from drop_columns_result(3)[OF dropped(1) that] show ?thesis .
  qed
qed

lemma remove_fp_columns_cases [consumes 1, case_names same dropped]:
  assumes "remove_fp_columns df = Inr df'"
  obtains (same) "df' = df" and "\<forall>c\<in>set (columns df). \<not> endswith c ''Fp''"
  | (dropped) names where "drop_columns df names = Inr df'"
      and "set names = {c \<in> set (columns df). endswith c ''Fp''}"
proof -
  let ?fp = "filter (\<lambda>col. endswith col ''Fp'') (columns df)"
  show ?thesis
  proof (cases "?fp = []")
    case True
    with assms have eq: "df' = df"
      by (simp add: remove_fp_columns_def Let_def)
    from True have "\<forall>c\<in>set (columns df). \<not> endswith c ''Fp''"
      by (simp add: filter_empty_conv)
    with eq show ?thesis by (rule same)
  next
    case False
    with assms have "drop_columns df ?fp = Inr df'"
      by (simp add: remove_fp_columns_def Let_def)
    moreover have "set ?fp = {c \<in> set (columns df). endswith c ''Fp''}"
      by auto
    ultimately show ?thesis by (rule dropped)
  qed
qed

lemma remove_fp_columns_result:
  assumes "remove_fp_columns df = Inr df'"
  shows "set (columns df') = {c \<in> set (columns df). \<not> endswith c ''Fp''}"
    and "length (rows df') = length (rows df)"
    and "rectangular df \<Longrightarrow> rectangular df'"
proof -
  show "set (columns df') = {c \<in> set (columns df). \<not> endswith c ''Fp''}"
    using assms
  proof (cases rule: remove_fp_columns_cases)
    case same
    then show ?thesis by blast
  next
    case (dropped names)
    from drop_columns_result(1)[OF dropped(1)] dropped(2) show ?thesis by auto
  qed
  show "length (rows df') = length (rows df)"
    using assms
  proof (cases rule: remove_fp_columns_cases)
    case same
    then show ?thesis by simp
  next
    case (dropped names)
    from drop_columns_result(2)[OF dropped(1)] show ?thesis .
  qed
  show "rectangular df'" if "rectangular df"
    using assms
  proof (cases rule: remove_fp_columns_cases)
    case same
    with that show ?thesis by simp
  next
    case (dropped names)
    from drop_columns_result(3)[OF dropped(1) that] show ?thesis .
  qed
qed

text \<open>The stages of a load that returns a table built from data lines.\<close>

lemma LoadDwar_stages:
  assumes "LoadDwar run log content flag = Inr (df, log')"
    and "snd (find_header_and_data_lines content) \<noteq> []"
  obtains df1 df2 where
    "decode_structures_in_dataframe run log
       (assemble_table (fst (find_header_and_data_lines content)) (snd (find_header_and_data_lines content)))
       (extract_column_properties content) = Inr (df1, log')"
    and "(if flag then remove_structure_columns df1 (extract_column_properties content) else Inr df1) = Inr df2"
    and "remove_fp_columns df2 = Inr df"
proof -
  let ?df0 = "assemble_table (fst (find_header_and_data_lines content)) (snd (find_header_and_data_lines content))"
  let ?info = "extract_column_properties content"
  from assms(1) have dwar: "is_dwar_file content"
    by (auto simp: LoadDwar_def split: if_splits)
  from assms dwar
  have run: "(case decode_structures_in_dataframe run log ?df0 ?info of
                   Inl e \<Rightarrow> Inl e
                 | Inr (df1, log1) \<Rightarrow>
                     (case (if flag then remove_structure_columns df1 ?info else Inr df1) of
                        Inl e \<Rightarrow> Inl e
                      | Inr df2 \<Rightarrow>
                          (case remove_fp_columns df2 of
                             Inl e \<Rightarrow> Inl e
                           | Inr df3 \<Rightarrow> Inr (df3, log1)))) = Inr (df, log')"
    by (simp add: LoadDwar_def Let_def)
  then obtain df1 log1 where d: "decode_structures_in_dataframe run log ?df0 ?info = Inr (df1, log1)"
    by (cases "decode_structures_in_dataframe run log ?df0 ?info") auto
  with run have run2: "(case (if flag then remove_structure_columns df1 ?info else Inr df1) of
                        Inl e \<Rightarrow> Inl e
                      | Inr df2 \<Rightarrow>
                          (case remove_fp_columns df2 of
                             Inl e \<Rightarrow> Inl e
                           | Inr df3 \<Rightarrow> Inr (df3, log1))) = Inr (df, log')"
    by simp
  then obtain df2 where r: "(if flag then remove_structure_columns df1 ?info else Inr df1) = Inr df2"
    by (cases "if flag then remove_structure_columns df1 ?info else Inr df1") auto
  with run2 have run3: "(case remove_fp_columns df2 of Inl e \<Rightarrow> Inl e | Inr df3 \<Rightarrow> Inr (df3, log1)) = Inr (df, log')"
    by simp
  then obtain df3 where f: "remove_fp_columns df2 = Inr df3"
    by (cases "remove_fp_columns df2") auto
  with run3 have "df3 = df" "log1 = log'"
    by simp_all
  with d r f that show ?thesis by blast
qed

section \<open>Claims about the columns of the loaded table\<close>

lemma sibling_not_fp: "\<not> endswith (name @ ''_SMILES'') ''Fp''"
proof
  assume "endswith (name @ ''_SMILES'') ''Fp''"
  then obtain zs where "name @ ''_SMILES'' = zs @ ''Fp''"
    by (auto simp: endswith_def suffix_def)
  then have "last (name @ ''_SMILES'') = last (zs @ ''Fp'')"
    by (rule arg_cong)
  then show False by simp
qed

lemma sibling_not_smiles: "py_lower (name @ ''_SMILES'') \<noteq> ''smiles''"
proof
  assume "py_lower (name @ ''_SMILES'') = ''smiles''"
  then have "length (py_lower (name @ ''_SMILES'')) = length ''smiles''"
    by (rule arg_cong)
  then show False by (simp add: py_lower_def)
qed

lemma idcode_columns_iff:
  "c \<in> set (snd (find_idcode_columns_for_decoding df info)) \<longleftrightarrow>
   c \<in> set (columns df) \<and> (\<exists>p. (c, p) \<in> set info \<and> has_idcode_type p)"
  by (force simp: find_idcode_columns_for_decoding_def Let_def is_idcode_entry_def)

lemma idcode_columns_fst_snd:
  "fst (find_idcode_columns_for_decoding df info) = snd (find_idcode_columns_for_decoding df info)"
  by (simp add: find_idcode_columns_for_decoding_def Let_def)

section \<open>The errors of a load\<close>

text \<open>
  The pandas calls of the program cannot fail for a missing label or a wrong number of
  values: the labels they are given come from the table, and the decoder returns one
  result for each row. The failures left are the format error and the \<open>AttributeError\<close>
  of a structure column whose label occurs twice.
\<close>

lemma get_column_length: "get_column df col = Inr vals \<Longrightarrow> length vals = length (rows df)"
  by (auto simp: get_column_def split: list.splits)

lemma get_column_error:
  assumes "col \<in> set (columns df)" and "get_column df col = Inl e"
  shows "e = AttributeError"
proof -
  from assms(1) obtain i where "i < length (columns df)" and "columns df ! i = col"
    by (auto simp: in_set_conv_nth)
  then have "i \<in> set (filter (\<lambda>i. columns df ! i = col) [0..<length (columns df)])"
    by simp
  then have "filter (\<lambda>i. columns df ! i = col) [0..<length (columns df)] \<noteq> []"
    by (metis empty_iff empty_set)
  with assms(2) show ?thesis
    by (auto simp: get_column_def split: list.splits)
qed

lemma set_column_ok:
  "length vals = length (rows df) \<Longrightarrow> \<exists>df'. set_column df name vals = Inr df'"
  by (simp add: set_column_def)

lemma drop_columns_ok:
  "set names \<subseteq> set (columns df) \<Longrightarrow> \<exists>df'. drop_columns df names = Inr df'"
  by (auto simp: drop_columns_def list_all_iff)

lemma decode_columns_error:
  "set cols \<subseteq> set (columns df) \<Longrightarrow> decode_columns run cols df log = Inl e \<Longrightarrow> e = AttributeError"
proof (induction cols arbitrary: df log)
  case Nil
  then show ?case by simp
next
  case (Cons col cols)
  show ?case
  proof (cases "get_column df col")
    case (Inl e')
    with Cons.prems have "e' = e" by simp
    with Inl Cons.prems(1) get_column_error[of col df e'] show ?thesis by simp
  next
    case (Inr idcodes)
    let ?vals = "fst (decode_idcodes run log idcodes)"
    have "length ?vals = length (rows df)"
      by (simp add: length_decode_idcodes get_column_length[OF Inr])
    from set_column_ok[OF this] obtain df1 where put: "set_column df (col @ ''_SMILES'') ?vals = Inr df1"
      by blast
    from set_column_result(1)[OF put] have "set (columns df) \<subseteq> set (columns df1)"
      by (auto split: if_splits)
    with Cons.prems(1) have sub: "set cols \<subseteq> set (columns df1)" by auto
    from Cons.prems(2) Inr put
    have "decode_columns run cols df1 (snd (decode_idcodes run log idcodes)) = Inl e" by simp
    from Cons.IH[OF sub this] show ?thesis .
  qed
qed

lemma decode_structures_error:
  assumes "decode_structures_in_dataframe run log df info = Inl e"
  shows "e = AttributeError"
proof -
  let ?cols = "fst (find_idcode_columns_for_decoding df info)"
  have sub: "set ?cols \<subseteq> set (columns df)"
    by (auto simp: idcode_columns_fst_snd idcode_columns_iff)
  from assms have "decode_columns run ?cols df log = Inl e"
    by (simp add: decode_structures_in_dataframe_def Let_def split: if_splits)
  from decode_columns_error[OF sub this] show ?thesis .
qed

lemma remove_structure_columns_ok: "\<exists>df'. remove_structure_columns df info = Inr df'"
proof -
  let ?rm = "remdups (snd (find_idcode_columns_for_decoding df info) @ filter is_coordinate_column (columns df) @
               filter (\<lambda>col. py_lower col = ''smiles'') (columns df))"
  have "set ?rm \<subseteq> set (columns df)"
    by (auto simp: idcode_columns_iff)
  from drop_columns_ok[OF this] show ?thesis
    by (auto simp: remove_structure_columns_def Let_def)
qed

lemma remove_fp_columns_ok: "\<exists>df'. remove_fp_columns df = Inr df'"
proof -
  have "set (filter (\<lambda>col. endswith col ''Fp'') (columns df)) \<subseteq> set (columns df)"
    by auto
  from drop_columns_ok[OF this] show ?thesis
    by (auto simp: remove_fp_columns_def Let_def)
qed

lemma LoadDwar_error:
  assumes "LoadDwar run log content flag = Inl e"
  shows "(e = FormatError \<and> \<not> is_dwar_file content) \<or> (e = AttributeError \<and> is_dwar_file content)"
proof (cases "is_dwar_file content")
  case False
  with assms show ?thesis by (simp add: LoadDwar_def)
next
  case True
  let ?hdr = "fst (find_header_and_data_lines content)"
  let ?data = "snd (find_header_and_data_lines content)"
  let ?df0 = "assemble_table ?hdr ?data"
  let ?info = "extract_column_properties content"
  from assms True have data: "?data \<noteq> []"
    by (auto simp: LoadDwar_def Let_def split: if_splits)
  show ?thesis
  proof (cases "decode_structures_in_dataframe run log ?df0 ?info")
    case (Inl e')
    with assms True data have "e' = e" by (simp add: LoadDwar_def Let_def)
    with decode_structures_error[OF Inl] True show ?thesis by simp
  next
    case (Inr p)
    obtain df1 log1 where p: "p = (df1, log1)" by (cases p)
    obtain df2 where r: "(if flag then remove_structure_columns df1 ?info else Inr df1) = Inr df2"
      using remove_structure_columns_ok[of df1 ?info] by (cases flag) auto
    obtain df3 where f: "remove_fp_columns df2 = Inr df3"
      using remove_fp_columns_ok[of df2] by blast
    from True data Inr p r f have "LoadDwar run log content flag = Inr (df3, log1)"
      by (simp add: LoadDwar_def Let_def)
    with assms show ?thesis by simp
  qed
qed

text \<open>
  C4. A text with neither marker makes the load fail with the format error. A text with
  one of the markers never does: the load then raises no \<open>ValueError\<close> at all, neither
  the format error nor the one pandas raises for a wrong number of values.
\<close>

theorem LoadDwar_format_error:
  "(\<not> py_in ''<datawarrior-fileinfo>'' content \<and> \<not> py_in ''<column properties>'' content
      \<longrightarrow> LoadDwar run log content flag = Inl FormatError) \<and>
   (py_in ''<datawarrior-fileinfo>'' content \<or> py_in ''<column properties>'' content
      \<longrightarrow> LoadDwar run log content flag \<noteq> Inl FormatError \<and>
          LoadDwar run log content flag \<noteq> Inl LengthError)"
proof (intro conjI impI)
  assume "\<not> py_in ''<datawarrior-fileinfo>'' content \<and> \<not> py_in ''<column properties>'' content"
  then have "\<not> is_dwar_file content"
    by (simp add: is_dwar_file_def)
  then show "LoadDwar run log content flag = Inl FormatError"
    by (simp add: LoadDwar_def)
next
  assume "py_in ''<datawarrior-fileinfo>'' content \<or> py_in ''<column properties>'' content"
  then have dwar: "is_dwar_file content"
    by (simp add: is_dwar_file_def)
  show "LoadDwar run log content flag \<noteq> Inl FormatError"
  proof
    assume "LoadDwar run log content flag = Inl FormatError"
    from LoadDwar_error[OF this] dwar show False by simp
  qed
  show "LoadDwar run log content flag \<noteq> Inl LengthError"
  proof
    assume "LoadDwar run log content flag = Inl LengthError"
    from LoadDwar_error[OF this] show False by simp
  qed
qed

theorem LoadDwar_format_error_witness:
  "\<not> py_in ''<datawarrior-fileinfo>'' doc_no_marker \<and> \<not> py_in ''<column properties>'' doc_no_marker \<and>
   LoadDwar benzene_decoder [] doc_no_marker True = Inl FormatError \<and>
   py_in ''<datawarrior-fileinfo>'' doc_smiles \<and>
   LoadDwar benzene_decoder [] doc_smiles True \<noteq> Inl FormatError"
proof -
  have a: "\<not> py_in ''<datawarrior-fileinfo>'' doc_no_marker" by code_simp
  have b: "\<not> py_in ''<column properties>'' doc_no_marker" by code_simp
  have c: "py_in ''<datawarrior-fileinfo>'' doc_smiles" by code_simp
  from a b have ab: "\<not> py_in ''<datawarrior-fileinfo>'' doc_no_marker \<and> \<not> py_in ''<column properties>'' doc_no_marker" ..
  from c have c': "py_in ''<datawarrior-fileinfo>'' doc_smiles \<or> py_in ''<column properties>'' doc_smiles" ..
  have r1: "LoadDwar benzene_decoder [] doc_no_marker True = Inl FormatError"
    by (rule LoadDwar_format_error[THEN conjunct1, THEN mp, OF ab])
  have r2: "LoadDwar benzene_decoder [] doc_smiles True \<noteq> Inl FormatError"
    by (rule LoadDwar_format_error[THEN conjunct2, THEN mp, OF c', THEN conjunct1])
  from a b r1 c r2 show ?thesis by (intro conjI)
qed

text \<open>
  C2, as the program has it. A table that the load returns has no column whose name ends
  with \<open>Fp\<close>, whatever the flag; it has no column whose lowercased name is \<open>smiles\<close>
  when \<open>exclude_structure_columns\<close> is set.
\<close>

theorem LoadDwar_no_fp_no_smiles_when_excluding:
  "LoadDwar run log content flag = Inr (df, log') \<Longrightarrow>
   (\<forall>c\<in>set (columns df). \<not> endswith c ''Fp'') \<and>
   (flag \<longrightarrow> (\<forall>c\<in>set (columns df). py_lower c \<noteq> ''smiles''))"
proof -
  assume load: "LoadDwar run log content flag = Inr (df, log')"
  show ?thesis
  proof (cases "snd (find_header_and_data_lines content) = []")
    case True
    with load have "df = empty_frame"
      by (auto simp: LoadDwar_def Let_def split: if_splits)
    then show ?thesis by (simp add: empty_frame_def)
  next
    case False
    from load False obtain df1 df2 where
      r: "(if flag then remove_structure_columns df1 (extract_column_properties content) else Inr df1) = Inr df2"
      and f: "remove_fp_columns df2 = Inr df"
      by (rule LoadDwar_stages)
    note cols = remove_fp_columns_result(1)[OF f]
    from cols have fp: "\<forall>c\<in>set (columns df). \<not> endswith c ''Fp''" by simp
    have "\<forall>c\<in>set (columns df). py_lower c \<noteq> ''smiles''" if flag
    proof -
      from r that have "remove_structure_columns df1 (extract_column_properties content) = Inr df2"
        by simp
      from remove_structure_columns_result(1)[OF this] cols show ?thesis by simp
    qed
    with fp show ?thesis by blast
  qed
qed

theorem LoadDwar_no_fp_no_smiles_when_excluding_witness:
  "LoadDwar benzene_decoder [] doc_smiles True = Inr (\<lparr>columns = [''ID''], rows = [[Some ''1'']]\<rparr>, []) \<and>
   list_all (\<lambda>c. \<not> endswith c ''Fp'' \<and> py_lower c \<noteq> ''smiles'') [''ID'']"
proof -
  have load: "LoadDwar benzene_decoder [] doc_smiles True = Inr (\<lparr>columns = [''ID''], rows = [[Some ''1'']]\<rparr>, [])"
    by code_simp
  from LoadDwar_no_fp_no_smiles_when_excluding[OF load]
  have "list_all (\<lambda>c. \<not> endswith c ''Fp'' \<and> py_lower c \<noteq> ''smiles'') [''ID'']"
    by simp
  with load show ?thesis ..
qed

text \<open>
  C2 as the specification states it fails: with \<open>exclude_structure_columns\<close> unset the
  column \<open>Smiles\<close> of the document stays in the table.
\<close>

theorem LoadDwar_keeps_smiles_when_not_excluding:
  "LoadDwar benzene_decoder [] doc_smiles False =
     Inr (\<lparr>columns = [''ID'', ''Smiles''], rows = [[Some ''1'', Some ''CCO'']]\<rparr>, []) \<and>
   py_lower ''Smiles'' = ''smiles''"
  by code_simp

text \<open>
  C3, as the program has it. Let a load with \<open>exclude_structure_columns\<close> set return a
  table built from data lines, and let a column of the assembled table be declared in the
  metadata with a \<open>specialType\<close> equal to \<open>idcode\<close> up to case. Then the column is absent
  from the returned table. Its sibling \<open>name_SMILES\<close> is present when the sibling's name
  matches no coordinate pattern and the metadata do not declare the sibling itself as
  \<open>idcode\<close>.
\<close>

theorem LoadDwar_idcode_column_replaced:
  assumes load: "LoadDwar run log content True = Inr (df, log')"
    and data: "snd (find_header_and_data_lines content) \<noteq> []"
    and name: "name \<in> set (columns (assemble_table (fst (find_header_and_data_lines content))
                                       (snd (find_header_and_data_lines content))))"
    and meta: "(name, props) \<in> set (extract_column_properties content)"
    and idcode: "has_idcode_type props"
  shows "name \<notin> set (columns df) \<and>
         (\<not> is_coordinate_column (name @ ''_SMILES'') \<and>
          (\<forall>p. (name @ ''_SMILES'', p) \<in> set (extract_column_properties content) \<longrightarrow> \<not> has_idcode_type p)
          \<longrightarrow> name @ ''_SMILES'' \<in> set (columns df))"
proof -
  let ?info = "extract_column_properties content"
  let ?df0 = "assemble_table (fst (find_header_and_data_lines content)) (snd (find_header_and_data_lines content))"
  from load data obtain df1 df2 where
    d: "decode_structures_in_dataframe run log ?df0 ?info = Inr (df1, log')"
    and r: "(if True then remove_structure_columns df1 ?info else Inr df1) = Inr df2"
    and f: "remove_fp_columns df2 = Inr df"
    by (rule LoadDwar_stages)
  from r have r': "remove_structure_columns df1 ?info = Inr df2" by simp
  note c2 = remove_structure_columns_result(1)[OF r']
  note c3 = remove_fp_columns_result(1)[OF f]
  from name meta idcode have "name \<in> set (snd (find_idcode_columns_for_decoding ?df0 ?info))"
    by (auto simp: idcode_columns_iff)
  then have todo: "name \<in> set (fst (find_idcode_columns_for_decoding ?df0 ?info))"
    by (simp add: idcode_columns_fst_snd)
  from decode_structures_result(1)[OF d] name have in1: "name \<in> set (columns df1)" by blast
  from decode_structures_result(2)[OF d] todo have sib1: "name @ ''_SMILES'' \<in> set (columns df1)" by blast
  from in1 meta idcode have "name \<in> set (snd (find_idcode_columns_for_decoding df1 ?info))"
    by (auto simp: idcode_columns_iff)
  with c2 have "name \<notin> set (columns df2)" by simp
  with c3 have absent: "name \<notin> set (columns df)" by simp
  have present: "name @ ''_SMILES'' \<in> set (columns df)"
    if nc: "\<not> is_coordinate_column (name @ ''_SMILES'')"
      and nd: "\<forall>p. (name @ ''_SMILES'', p) \<in> set ?info \<longrightarrow> \<not> has_idcode_type p"
  proof -
    from nd have "name @ ''_SMILES'' \<notin> set (snd (find_idcode_columns_for_decoding df1 ?info))"
      by (auto simp: idcode_columns_iff)
    with c2 sib1 nc have "name @ ''_SMILES'' \<in> set (columns df2)"
      by (simp add: sibling_not_smiles)
    with c3 show ?thesis
      by (simp add: sibling_not_fp)
  qed
  from absent present show ?thesis by blast
qed

theorem LoadDwar_idcode_column_replaced_witness:
  "LoadDwar benzene_decoder [] doc_structure True =
     Inr (\<lparr>columns = [''ID'', ''Name'', ''Structure_SMILES''],
           rows = [[Some ''1'', Some ''x'', Some ''C1=CC=CC=C1'']]\<rparr>, [[''ABC'']]) \<and>
   snd (find_header_and_data_lines doc_structure) \<noteq> [] \<and>
   ''Structure'' \<in> set (columns (assemble_table (fst (find_header_and_data_lines doc_structure))
                                       (snd (find_header_and_data_lines doc_structure)))) \<and>
   extract_column_properties doc_structure = [(''Structure'', [(''type'', ''string''), (''specialType'', ''idcode'')])] \<and>
   has_idcode_type [(''type'', ''string''), (''specialType'', ''idcode'')] \<and>
   \<not> is_coordinate_column (''Structure'' @ ''_SMILES'') \<and>
   ''Structure'' \<notin> set [''ID'', ''Name'', ''Structure_SMILES''] \<and>
   ''Structure'' @ ''_SMILES'' \<in> set [''ID'', ''Name'', ''Structure_SMILES'']"
proof -
  let ?props = "[(''type'', ''string''), (''specialType'', ''idcode'')]"
  let ?df = "\<lparr>columns = [''ID'', ''Name'', ''Structure_SMILES''],
           rows = [[Some ''1'', Some ''x'', Some ''C1=CC=CC=C1'']]\<rparr>"
  have load: "LoadDwar benzene_decoder [] doc_structure True = Inr (?df, [[''ABC'']])"
    by code_simp
  have data: "snd (find_header_and_data_lines doc_structure) \<noteq> []"
    by code_simp
  have name: "''Structure'' \<in> set (columns (assemble_table (fst (find_header_and_data_lines doc_structure))
                                       (snd (find_header_and_data_lines doc_structure))))"
    by code_simp
  have info: "extract_column_properties doc_structure = [(''Structure'', ?props)]"
    by code_simp
  then have meta: "(''Structure'', ?props) \<in> set (extract_column_properties doc_structure)"
    by simp
  have idcode: "has_idcode_type ?props"
    by code_simp
  have nc: "\<not> is_coordinate_column (''Structure'' @ ''_SMILES'')"
    by code_simp
  have nd: "\<forall>p. (''Structure'' @ ''_SMILES'', p) \<in> set (extract_column_properties doc_structure) \<longrightarrow> \<not> has_idcode_type p"
    by (simp add: info)
  note inst = LoadDwar_idcode_column_replaced[OF load data name meta idcode]
  from inst have absent: "''Structure'' \<notin> set (columns ?df)" ..
  from inst nc nd have "''Structure'' @ ''_SMILES'' \<in> set (columns ?df)" by blast
  with absent have both: "''Structure'' \<notin> set [''ID'', ''Name'', ''Structure_SMILES''] \<and>
      ''Structure'' @ ''_SMILES'' \<in> set [''ID'', ''Name'', ''Structure_SMILES'']"
    by simp
  from load data name info idcode nc both show ?thesis by (intro conjI) simp_all
qed

text \<open>
  C3 as the specification states it fails: the column \<open>AtomCoords\<close> is declared as
  \<open>idcode\<close> and is in the table, the load succeeds with \<open>exclude_structure_columns\<close> set,
  and the returned table has no column \<open>AtomCoords_SMILES\<close>, which the coordinate
  patterns remove.
\<close>

theorem LoadDwar_sibling_removed_as_coordinate:
  "LoadDwar benzene_decoder [] doc_coords True =
     Inr (\<lparr>columns = [''ID'', ''Name''], rows = [[Some ''1'', Some ''x'']]\<rparr>, [[''ABC'']]) \<and>
   snd (find_header_and_data_lines doc_coords) \<noteq> [] \<and>
   columns (assemble_table (fst (find_header_and_data_lines doc_coords))
                           (snd (find_header_and_data_lines doc_coords))) = [''ID'', ''AtomCoords'', ''Name''] \<and>
   extract_column_properties doc_coords = [(''AtomCoords'', [(''type'', ''string''), (''specialType'', ''idcode'')])] \<and>
   has_idcode_type [(''type'', ''string''), (''specialType'', ''idcode'')] \<and>
   ''AtomCoords_SMILES'' \<notin> set [''ID'', ''Name'']"
  by code_simp


section \<open>The header and the data lines\<close>

lemma scan_line_collecting:
  assumes "header_found st"
  shows "header_found (scan_line l st)"
    and "header_line (scan_line l st) = header_line st"
    and "data_lines (scan_line l st) = data_lines st @ (if data_candidate l then [py_split l [TAB]] else [])"
  using assms
  by (simp_all add: scan_line_def collect_data_def data_candidate_def body_line_def)

lemma fold_scan_line_collecting:
  "header_found st \<Longrightarrow>
   header_found (fold scan_line ls st) \<and>
   header_line (fold scan_line ls st) = header_line st \<and>
   data_lines (fold scan_line ls st) = data_lines st @ map (\<lambda>l. py_split l [TAB]) (filter data_candidate ls)"
proof (induction ls arbitrary: st)
  case Nil
  then show ?case by simp
next
  case (Cons l ls)
  note step = scan_line_collecting[OF Cons.prems, of l]
  from Cons.IH[OF step(1), unfolded step(2) step(3)] show ?case by simp
qed

lemma scan_line_header:
  assumes "found_column_properties_end st" and "\<not> header_found st" and "header_candidate l"
  shows "header_found (scan_line l st)"
    and "header_line (scan_line l st) = Some (py_split l [TAB])"
    and "data_lines (scan_line l st) = data_lines st"
  using assms
  by (simp_all add: scan_line_def header_candidate_def body_line_def Let_def)

lemma scan_line_no_header:
  assumes "found_column_properties_end st" and "\<not> header_found st" and "\<not> header_candidate l"
  shows "found_column_properties_end (scan_line l st)"
    and "\<not> header_found (scan_line l st)"
    and "header_line (scan_line l st) = header_line st"
    and "data_lines (scan_line l st) = data_lines st"
  using assms
  by (auto simp: scan_line_def collect_data_def header_candidate_def body_line_def Let_def)

lemma fold_scan_line_seeking_header:
  "found_column_properties_end st \<Longrightarrow> \<not> header_found st \<Longrightarrow>
   (header_line (fold scan_line ls st), data_lines (fold scan_line ls st)) =
     (case dropWhile (\<lambda>l. \<not> header_candidate l) ls of
        [] \<Rightarrow> (header_line st, data_lines st)
      | h # post \<Rightarrow> (Some (py_split h [TAB]),
                      data_lines st @ map (\<lambda>l. py_split l [TAB]) (filter data_candidate post)))"
proof (induction ls arbitrary: st)
  case Nil
  then show ?case by simp
next
  case (Cons l ls)
  show ?case
  proof (cases "header_candidate l")
    case True
    note step = scan_line_header[OF Cons.prems True]
    from fold_scan_line_collecting[OF step(1), of ls, unfolded step(2) step(3)] True show ?thesis by simp
  next
    case False
    note step = scan_line_no_header[OF Cons.prems False]
    from Cons.IH[OF step(1,2), unfolded step(3) step(4)] False show ?thesis by simp
  qed
qed

lemma scan_line_closing:
  assumes "\<not> found_column_properties_end st" and "\<not> header_found st" and "closes_metadata l"
  shows "found_column_properties_end (scan_line l st)"
    and "\<not> header_found (scan_line l st)"
    and "header_line (scan_line l st) = header_line st"
    and "data_lines (scan_line l st) = data_lines st"
  using assms
  by (simp_all add: scan_line_def closes_metadata_def)

lemma scan_line_before_closing:
  assumes "\<not> found_column_properties_end st" and "\<not> header_found st" and "\<not> closes_metadata l"
  shows "scan_line l st = st"
  using assms
  by (auto simp: scan_line_def collect_data_def closes_metadata_def)

lemma fold_scan_line_seeking_close:
  "\<not> found_column_properties_end st \<Longrightarrow> \<not> header_found st \<Longrightarrow>
   (header_line (fold scan_line ls st), data_lines (fold scan_line ls st)) =
     (case dropWhile (\<lambda>l. \<not> closes_metadata l) ls of
        [] \<Rightarrow> (header_line st, data_lines st)
      | c # after \<Rightarrow>
          (case dropWhile (\<lambda>l. \<not> header_candidate l) after of
             [] \<Rightarrow> (header_line st, data_lines st)
           | h # post \<Rightarrow> (Some (py_split h [TAB]),
                           data_lines st @ map (\<lambda>l. py_split l [TAB]) (filter data_candidate post))))"
proof (induction ls arbitrary: st)
  case Nil
  then show ?case by simp
next
  case (Cons l ls)
  show ?case
  proof (cases "closes_metadata l")
    case True
    note step = scan_line_closing[OF Cons.prems True]
    from fold_scan_line_seeking_header[OF step(1,2), of ls, unfolded step(3) step(4)] True show ?thesis by simp
  next
    case False
    from scan_line_before_closing[OF Cons.prems False] Cons.IH[OF Cons.prems] False
    show ?thesis by simp
  qed
qed

lemma fold_fh_step: "fold fh_step raws st = fold scan_line (map py_strip raws) st"
proof -
  have "fh_step = scan_line \<circ> py_strip"
    by (intro ext) (simp add: fh_step_def)
  then show ?thesis by (simp add: fold_map)
qed

text \<open>The fold of the program computes the declarative reading on the stripped lines.\<close>

lemma find_header_and_data_lines_stripped:
  "find_header_and_data_lines content = body_by_stripped_lines (map py_strip (py_split content [LF]))"
proof -
  have init: "\<not> found_column_properties_end fh_init" "\<not> header_found fh_init"
    "header_line fh_init = None" "data_lines fh_init = []"
    by (simp_all add: fh_init_def)
  from fold_scan_line_seeking_close[OF init(1,2), of "map py_strip (py_split content [LF])", unfolded init(3) init(4) append_Nil]
  show ?thesis
    by (simp add: find_header_and_data_lines_def Let_def fold_fh_step body_by_stripped_lines_def)
qed

text \<open>Stripping keeps a part of the line, and a stripped line starts with no whitespace.\<close>

lemma strip_sublist: "sublist (py_strip s) s"
proof -
  have "suffix (dropWhile py_isspace s) s"
    by (rule suffix_dropWhile)
  moreover have "prefix (py_strip s) (dropWhile py_isspace s)"
  proof -
    have "suffix (dropWhile py_isspace (rev (dropWhile py_isspace s))) (rev (dropWhile py_isspace s))"
      by (rule suffix_dropWhile)
    then have "prefix (rev (dropWhile py_isspace (rev (dropWhile py_isspace s)))) (rev (rev (dropWhile py_isspace s)))"
      by (simp only: suffix_to_prefix rev_rev_ident)
    then show ?thesis by (simp add: py_strip_def)
  qed
  ultimately show ?thesis
    by (auto simp: sublist_altdef')
qed

lemma py_in_strip: "py_in p (py_strip s) \<Longrightarrow> py_in p s"
  unfolding py_in_def using strip_sublist sublist_order.order_trans by blast

lemma strip_hd_not_space:
  assumes "py_strip s \<noteq> []"
  shows "\<not> py_isspace (hd (py_strip s))"
proof -
  let ?t = "dropWhile py_isspace s"
  have t: "?t \<noteq> []"
  proof
    assume e: "?t = []"
    have "py_strip s = []"
      unfolding py_strip_def by (simp only: e rev.simps dropWhile.simps)
    with assms show False by simp
  qed
  then have first: "\<not> py_isspace (hd ?t)"
    by (rule hd_dropWhile)
  have "rev (takeWhile py_isspace (rev ?t) @ dropWhile py_isspace (rev ?t)) = rev (rev ?t)"
    by (simp only: takeWhile_dropWhile_id)
  then have "rev (dropWhile py_isspace (rev ?t)) @ rev (takeWhile py_isspace (rev ?t)) = ?t"
    by (simp only: rev_append rev_rev_ident)
  then have "?t = py_strip s @ rev (takeWhile py_isspace (rev ?t))"
    by (simp only: py_strip_def)
  with assms have "hd ?t = hd (py_strip s)"
    by (metis hd_append2)
  with first show ?thesis by simp
qed

lemma tab_is_space: "py_isspace TAB"
  by (simp add: py_isspace_def)

lemma split_from_nonempty: "split_from sep acc s \<noteq> []"
  by (induction sep acc s rule: split_from.induct) auto

lemma split_from_hd: "acc \<noteq> [] \<Longrightarrow> hd (split_from sep acc s) \<noteq> []"
  by (induction sep acc s rule: split_from.induct) auto

lemma split_tab_first_field:
  assumes "l \<noteq> []" and "hd l \<noteq> TAB"
  shows "py_split l [TAB] \<noteq> [] \<and> hd (py_split l [TAB]) \<noteq> []"
proof -
  from assms obtain c cs where l: "l = c # cs" and c: "c \<noteq> TAB"
    by (cases l) auto
  then have "py_split l [TAB] = split_from [TAB] [c] cs"
    by (simp add: py_split_def)
  then show ?thesis
    by (simp add: split_from_nonempty split_from_hd)
qed

text \<open>Every data row starts with a non-empty field.\<close>

lemma data_rows_first_field:
  assumes "r \<in> set (snd (find_header_and_data_lines content))"
  shows "r \<noteq> [] \<and> hd r \<noteq> []"
proof -
  let ?ls = "map py_strip (py_split content [LF])"
  from assms have mem: "r \<in> set (snd (body_by_stripped_lines ?ls))"
    by (simp add: find_header_and_data_lines_stripped)
  obtain l where l: "l \<in> set ?ls" and cand: "data_candidate l" and r: "r = py_split l [TAB]"
  proof (cases "dropWhile (\<lambda>l. \<not> closes_metadata l) ?ls")
    case Nil
    with mem show ?thesis by (simp add: body_by_stripped_lines_def)
  next
    case outer: (Cons c after)
    show ?thesis
    proof (cases "dropWhile (\<lambda>l. \<not> header_candidate l) after")
      case Nil
      with mem outer show ?thesis by (simp add: body_by_stripped_lines_def)
    next
      case (Cons h post)
      with mem outer have "r \<in> set (map (\<lambda>l. py_split l [TAB]) (filter data_candidate post))"
        by (simp add: body_by_stripped_lines_def)
      then obtain l where lp: "l \<in> set post" and lc: "data_candidate l" and lr: "r = py_split l [TAB]"
        by auto
      from lp have "l \<in> set (dropWhile (\<lambda>l. \<not> header_candidate l) after)"
        by (simp add: Cons)
      then have "l \<in> set after" by (rule set_dropWhileD)
      then have "l \<in> set (dropWhile (\<lambda>l. \<not> closes_metadata l) ?ls)"
        by (simp add: outer)
      then have "l \<in> set ?ls" by (rule set_dropWhileD)
      with lc lr that show ?thesis by blast
    qed
  qed
  from l obtain raw where raw: "l = py_strip raw" by auto
  from cand have ne: "l \<noteq> []"
    by (simp add: data_candidate_def body_line_def)
  with raw strip_hd_not_space[of raw] tab_is_space have "hd l \<noteq> TAB"
    by auto
  from split_tab_first_field[OF ne this] r show ?thesis by simp
qed

section \<open>Claims about the body of the document\<close>

text \<open>
  C9, as the program has it. Every line is stripped of surrounding whitespace first, and a
  line that contains either sentinel is never a header or a data row. The header is the
  first stripped line after the first line closing the metadata block that is not empty,
  does not start with \<open><\<close> or \<open>>\<close>, contains a tab and splits into three or more
  fields; the data rows are taken from the lines after the header only, so the header is
  not a data row; when there is no such line the header is absent and there is no data
  row.
\<close>

theorem find_header_and_data_lines_by_stripped_lines:
  "find_header_and_data_lines content = body_by_stripped_lines (map py_strip (py_split content [LF]))"
  by (rule find_header_and_data_lines_stripped)

theorem find_header_and_data_lines_by_stripped_lines_witness:
  "body_by_stripped_lines (map py_strip (py_split doc_trailing_tab [LF])) = (Some [''X'', ''Y'', ''Z''], [[''1'', ''2'', ''3'']]) \<and>
   find_header_and_data_lines doc_trailing_tab = (Some [''X'', ''Y'', ''Z''], [[''1'', ''2'', ''3'']])"
proof -
  have v: "body_by_stripped_lines (map py_strip (py_split doc_trailing_tab [LF])) = (Some [''X'', ''Y'', ''Z''], [[''1'', ''2'', ''3'']])"
    by code_simp
  with find_header_and_data_lines_by_stripped_lines[of doc_trailing_tab] show ?thesis
    by simp
qed

text \<open>
  C9 as the specification states it fails: the first line after the closing sentinel that
  does not start with \<open><\<close> or \<open>>\<close>, contains a tab and splits into three fields is the
  line \<open>A\<close>, tab, \<open>B\<close>, tab, but the program strips the final tab, finds two fields and
  takes the next line as the header.
\<close>

theorem header_differs_from_raw_line_reading:
  "header_by_raw_lines doc_trailing_tab = Some [''A'', ''B'', []] \<and>
   fst (find_header_and_data_lines doc_trailing_tab) = Some [''X'', ''Y'', ''Z''] \<and>
   fst (find_header_and_data_lines doc_trailing_tab) \<noteq> header_by_raw_lines doc_trailing_tab"
  by code_simp

text \<open>
  C10, as the program has it. When no line of the text contains the closing sentinel, the
  header is absent and there is no data row; when the text moreover contains one of the two
  file markers, the load returns the empty table and submits nothing to the decoder. Without
  a marker the load fails with the format error instead.
\<close>

theorem no_closing_sentinel_gives_empty_table:
  "\<forall>l\<in>set (py_split content [LF]). \<not> py_in ''</column properties>'' l \<Longrightarrow>
   find_header_and_data_lines content = (None, []) \<and>
   (is_dwar_file content \<longrightarrow> LoadDwar run log content flag = Inr (empty_frame, log))"
proof -
  assume none: "\<forall>l\<in>set (py_split content [LF]). \<not> py_in ''</column properties>'' l"
  have "\<forall>l\<in>set (map py_strip (py_split content [LF])). \<not> closes_metadata l"
  proof
    fix l assume "l \<in> set (map py_strip (py_split content [LF]))"
    then obtain raw where raw: "raw \<in> set (py_split content [LF])" and l: "l = py_strip raw"
      by auto
    from none raw have "\<not> py_in ''</column properties>'' raw" by blast
    with py_in_strip[of "''</column properties>''" raw] l show "\<not> closes_metadata l"
      by (auto simp: closes_metadata_def)
  qed
  then have dw: "dropWhile (\<lambda>l. \<not> closes_metadata l) (map py_strip (py_split content [LF])) = []"
    by simp
  have body: "find_header_and_data_lines content = (None, [])"
    unfolding find_header_and_data_lines_stripped body_by_stripped_lines_def dw by simp
  then have "LoadDwar run log content flag = Inr (empty_frame, log)" if "is_dwar_file content"
    using that by (simp add: LoadDwar_def Let_def)
  with body show ?thesis by blast
qed

theorem no_closing_sentinel_gives_empty_table_witness:
  "list_all (\<lambda>l. \<not> py_in ''</column properties>'' l) (py_split doc_unclosed [LF]) \<and>
   is_dwar_file doc_unclosed \<and>
   find_header_and_data_lines doc_unclosed = (None, []) \<and>
   LoadDwar benzene_decoder [] doc_unclosed True = Inr (empty_frame, [])"
proof -
  have h: "list_all (\<lambda>l. \<not> py_in ''</column properties>'' l) (py_split doc_unclosed [LF])"
    by code_simp
  then have h': "\<forall>l\<in>set (py_split doc_unclosed [LF]). \<not> py_in ''</column properties>'' l"
    by (simp add: list_all_iff)
  have d: "is_dwar_file doc_unclosed"
    by code_simp
  note inst = no_closing_sentinel_gives_empty_table[OF h', of benzene_decoder "[]" True]
  from inst have a: "find_header_and_data_lines doc_unclosed = (None, [])" ..
  from inst d have b: "LoadDwar benzene_decoder [] doc_unclosed True = Inr (empty_frame, [])"
    by blast
  from h d a b show ?thesis by (intro conjI)
qed

text \<open>
  C10 as the specification states it fails: a text without the closing sentinel and
  without a file marker does not load as an empty table, the load fails.
\<close>

theorem no_closing_sentinel_without_marker_fails:
  "list_all (\<lambda>l. \<not> py_in ''</column properties>'' l) (py_split doc_no_marker [LF]) \<and>
   LoadDwar benzene_decoder [] doc_no_marker True = Inl FormatError \<and>
   LoadDwar benzene_decoder [] doc_no_marker True \<noteq> Inr (empty_frame, [])"
  by code_simp

section \<open>Claim about the shape of the loaded table\<close>

lemma length_le_frame_width: "r \<in> set data \<Longrightarrow> length r \<le> frame_width data"
  by (induction data) (auto simp: frame_width_def)

lemma length_pad_row: "length r \<le> w \<Longrightarrow> length (pad_row w r) = w"
  by (simp add: pad_row_def)

lemma pad_row_has_value: "r \<noteq> [] \<Longrightarrow> \<not> list_all (\<lambda>x. x = None) (pad_row w r)"
  by (cases r) (simp_all add: pad_row_def)

lemma length_generic_names: "length (generic_names w) = w"
  by (simp add: generic_names_def)

lemma assemble_table_shape:
  assumes "\<forall>r\<in>set data. r \<noteq> []"
  shows "length (rows (assemble_table hdr data)) = length data"
    and "rectangular (assemble_table hdr data)"
proof -
  let ?w = "frame_width data"
  let ?names = "case hdr of Some h \<Rightarrow> if h \<noteq> [] \<and> length h = ?w then h else generic_names ?w
                | None \<Rightarrow> generic_names ?w"
  have keep: "filter (\<lambda>r. \<not> list_all (\<lambda>x. x = None) r) (map (pad_row ?w) data) = map (pad_row ?w) data"
    using assms by (simp add: pad_row_has_value)
  have tab: "assemble_table hdr data = \<lparr>columns = ?names, rows = map (pad_row ?w) data\<rparr>"
    by (simp add: assemble_table_def Let_def dropna_all_def keep)
  have names: "length ?names = ?w"
    by (simp add: length_generic_names split: option.splits)
  show "length (rows (assemble_table hdr data)) = length data"
    by (simp add: tab)
  show "rectangular (assemble_table hdr data)"
    unfolding rectangular_def list_all_iff
  proof
    fix r' assume "r' \<in> set (rows (assemble_table hdr data))"
    then obtain r where "r \<in> set data" and "r' = pad_row ?w r"
      by (auto simp: tab)
    with length_le_frame_width[of r data] have "length r' = ?w"
      by (simp add: length_pad_row)
    with names show "length r' = length (columns (assemble_table hdr data))"
      by (simp add: tab)
  qed
qed

lemma data_rows_not_entirely_empty:
  "filter (\<lambda>r. \<not> entirely_empty r) (snd (find_header_and_data_lines content)) =
   snd (find_header_and_data_lines content)"
proof -
  have "\<not> entirely_empty r" if "r \<in> set (snd (find_header_and_data_lines content))" for r
  proof -
    from data_rows_first_field[OF that] obtain c cs where "r = c # cs" and "c \<noteq> []"
      by (cases r) auto
    then show ?thesis by (simp add: entirely_empty_def)
  qed
  then show ?thesis by simp
qed

text \<open>
  C8. The table that a load returns has as many rows as the body has data lines that are
  not entirely empty, and every row has one cell for each column name.
\<close>

theorem LoadDwar_row_count_and_width:
  "LoadDwar run log content flag = Inr (df, log') \<Longrightarrow>
   length (rows df) = length (filter (\<lambda>r. \<not> entirely_empty r) (snd (find_header_and_data_lines content))) \<and>
   (\<forall>r\<in>set (rows df). length r = length (columns df))"
proof -
  assume load: "LoadDwar run log content flag = Inr (df, log')"
  let ?hdr = "fst (find_header_and_data_lines content)"
  let ?data = "snd (find_header_and_data_lines content)"
  show ?thesis
  proof (cases "?data = []")
    case True
    with load have "df = empty_frame"
      by (auto simp: LoadDwar_def Let_def split: if_splits)
    with True show ?thesis by (simp add: empty_frame_def)
  next
    case False
    from load False obtain df1 df2 where
      d: "decode_structures_in_dataframe run log (assemble_table ?hdr ?data) (extract_column_properties content) = Inr (df1, log')"
      and r: "(if flag then remove_structure_columns df1 (extract_column_properties content) else Inr df1) = Inr df2"
      and f: "remove_fp_columns df2 = Inr df"
      by (rule LoadDwar_stages)
    have ne: "\<forall>r\<in>set ?data. r \<noteq> []"
      using data_rows_first_field by blast
    note t0 = assemble_table_shape[OF ne, of ?hdr]
    note t1 = decode_structures_result(3,4)[OF d]
    have t2: "length (rows df2) = length (rows df1) \<and> (rectangular df1 \<longrightarrow> rectangular df2)"
    proof (cases flag)
      case True
      with r have "remove_structure_columns df1 (extract_column_properties content) = Inr df2" by simp
      from remove_structure_columns_result(2,3)[OF this] show ?thesis by blast
    next
      case False
      with r show ?thesis by simp
    qed
    note t3 = remove_fp_columns_result(2,3)[OF f]
    from t0(1) t1(1) t2 t3(1) have "length (rows df) = length ?data" by simp
    then have count: "length (rows df) = length (filter (\<lambda>r. \<not> entirely_empty r) ?data)"
      by (simp only: data_rows_not_entirely_empty)
    from t0(2) t1(2) t2 t3(2) have "rectangular df" by blast
    then have "\<forall>r\<in>set (rows df). length r = length (columns df)"
      by (simp add: rectangular_def list_all_iff)
    with count show ?thesis by blast
  qed
qed

theorem LoadDwar_row_count_and_width_witness:
  "LoadDwar benzene_decoder [] doc_ragged True =
     Inr (\<lparr>columns = [''A'', ''B'', ''C''],
           rows = [[Some ''1'', Some ''2'', Some ''3''], [Some ''4'', Some ''5'', None]]\<rparr>, []) \<and>
   snd (find_header_and_data_lines doc_ragged) = [[''1'', ''2'', ''3''], [''4'', ''5'']] \<and>
   length [[Some ''1'', Some ''2'', Some ''3''], [Some ''4'', Some ''5'', None]] =
     length (filter (\<lambda>r. \<not> entirely_empty r) [[''1'', ''2'', ''3''], [''4'', ''5'']]) \<and>
   list_all (\<lambda>r. length r = length [''A'', ''B'', ''C''])
     [[Some ''1'', Some ''2'', Some ''3''], [Some ''4'', Some ''5'', None :: string option]]"
proof -
  let ?df = "\<lparr>columns = [''A'', ''B'', ''C''],
           rows = [[Some ''1'', Some ''2'', Some ''3''], [Some ''4'', Some ''5'', None]]\<rparr>"
  have load: "LoadDwar benzene_decoder [] doc_ragged True = Inr (?df, [])"
    by code_simp
  have data: "snd (find_header_and_data_lines doc_ragged) = [[''1'', ''2'', ''3''], [''4'', ''5'']]"
    by code_simp
  note inst = LoadDwar_row_count_and_width[OF load]
  from inst have "length (rows ?df) = length (filter (\<lambda>r. \<not> entirely_empty r) (snd (find_header_and_data_lines doc_ragged)))" ..
  then have count: "length [[Some ''1'', Some ''2'', Some ''3''], [Some ''4'', Some ''5'', None :: string option]] =
     length (filter (\<lambda>r. \<not> entirely_empty r) [[''1'', ''2'', ''3''], [''4'', ''5'']])"
    by (simp only: data dataframe.simps)
  from inst have "\<forall>r\<in>set (rows ?df). length r = length (columns ?df)" ..
  then have width: "list_all (\<lambda>r. length r = length [''A'', ''B'', ''C''])
     [[Some ''1'', Some ''2'', Some ''3''], [Some ''4'', Some ''5'', None :: string option]]"
    by (simp add: list_all_iff)
  from load data count width show ?thesis by (intro conjI)
qed


section \<open>The index of the metadata extractor is in range\<close>

text \<open>
  \<open>extract_column_properties\<close> reads \<open>prop.split(key)[1]\<close> after the test \<open>key in prop\<close>:
  the split then has at least two pieces, so the index never raises.
\<close>

lemma split_from_two_pieces:
  "sep \<noteq> [] \<Longrightarrow> sublist sep s \<Longrightarrow> 2 \<le> length (split_from sep acc s)"
proof (induction sep acc s rule: split_from.induct)
  case (1 sep acc)
  then show ?case by simp
next
  case (2 sep acc c cs)
  show ?case
  proof (cases "prefix sep (c # cs)")
    case True
    have "split_from sep [] (drop (length sep) (c # cs)) \<noteq> []"
      by (rule split_from_nonempty)
    then have "1 \<le> length (split_from sep [] (drop (length sep) (c # cs)))"
      by (simp add: Suc_le_eq)
    with True "2.prems"(1) show ?thesis by simp
  next
    case False
    with "2.prems"(2) have "sublist sep cs"
      by (simp add: sublist_Cons_right)
    with False "2.prems"(1) "2.IH"(2) show ?thesis by simp
  qed
qed

lemma py_split_second_piece:
  "sep \<noteq> [] \<Longrightarrow> py_in sep s \<Longrightarrow> 1 < length (py_split s sep)"
  using split_from_two_pieces[of sep s "[]"] by (simp add: py_in_def py_split_def)


end
